theory Spec2Isabelle
  imports Main "HOL-Library.AList"
begin

section \<open>Data model\<close>

text \<open>
  The installer keeps a cache directory with one finalized binary per release, a symbolic
  link \<open>latest\<close>, a text file \<open>next-check\<close> and, while a download runs, a pending
  file \<open>destination.dl\<close> guarded by a lock. The model is a shallow embedding of the
  TypeScript sources: every function that touches the file system, the clock or the
  network takes the world and returns it updated, and every \<open>throw\<close> or rejected promise
  is a value \<open>Inl e\<close>.
\<close>

type_synonym path = string
type_synonym headers = "(string \<times> string) list"

text \<open>
  A node of the file system. File contents are byte strings; a \<open>char\<close> is one byte.
\<close>

datatype node = File string | Dir | Symlink path

text \<open>
  What a response stream delivers while it is consumed: \<open>data\<close> events carrying a chunk,
  interleaved with the moments at which the lock library calls \<open>onCompromised\<close>; the stream
  then finishes with \<open>end\<close> or with \<open>error\<close>.
\<close>

datatype sevent = Data string | Compromised

datatype sfinish = End | StreamError

record response =
  statusCode :: "nat option"
  location :: "string option"
  body :: "sevent list"
  finish :: sfinish

datatype netresult = TransportError | Response response

text \<open>The effects a run leaves behind, in the order in which they happen.\<close>

datatype event =
    EvRequest string headers
  | EvLock path
  | EvRelease path
  | EvOpen path
  | EvWrite path nat nat
  | EvUnlink path
  | EvRename path path
  | EvMkdir path
  | EvRmTree path
  | EvSymlink path path
  | EvWriteFile path

text \<open>
  The sources throw plain \<open>Error\<close> objects (or reject with no reason); each constructor
  stands for one throw site.
\<close>

datatype error =
    InvalidURL string
  | TransportFailure
  | NoStatusCode string
  | BadStatus string nat
  | StreamFailure
  | Aborted
  | IntegrityCheckFailed
  | UnknownDigestAlgorithm string
  | LockFailure path
  | FsError string path
  | JSONError
  | NameNotAString
  | AssetMissing string
  | InvalidDigest
  | NoPublishedAsset string string
  | UnableToFetch

text \<open>
  The world: the file system (a flat map from absolute paths to nodes), the lock markers
  that are held, by this or by another process, the clock \<open>Date.now()\<close> and the trace of
  effects so far.
\<close>

record world =
  fs :: "path \<Rightarrow> node option"
  locks :: "path set"
  now :: int
  trace :: "event list"

record Asset =
  asset_name :: string
  browser_download_url :: string
  digest :: string

record json =
  json_tag_name :: "string option"
  json_name :: "string option"
  json_assets :: "Asset list option"

text \<open>
  What the program takes from its surroundings and never changes:
  \<^item> \<open>server\<close>: the remote side, a function of the address and the request headers;
  \<^item> \<open>validURL\<close>: whether \<open>new URL(url)\<close> accepts the address (it throws otherwise);
  \<^item> \<open>createHash\<close>: the digest function of an algorithm name, \<open>None\<close> where
    \<open>crypto.createHash\<close> throws; the function maps all the bytes fed to the hash object to
    the hex digest;
  \<^item> \<open>Date_parse\<close>: \<open>Date.parse\<close>, in milliseconds, \<open>None\<close> for \<open>NaN\<close>;
  \<^item> \<open>toISOString\<close>: \<open>new Date(t).toISOString()\<close>;
  \<^item> \<open>toLowerCase\<close>: \<open>String.prototype.toLowerCase\<close>, the case mapping of the Unicode
    tables of the runtime, on strings in their UTF-8 encoding;
  \<^item> \<open>JSON_parse\<close>: \<open>JSON.parse\<close> read as a release object, \<open>None\<close> where the text
    is no JSON or no object; a field is \<open>None\<close> when it is missing (for \<open>assets\<close>: when
    it is no array);
  \<^item> \<open>platform\<close>, \<open>arch\<close>: \<open>process.platform\<close> and \<open>process.arch\<close>;
  \<^item> \<open>installRoot\<close>: \<open>INSTALL_ROOT\<close>, the directory above the script;
  \<^item> \<open>packageVersion\<close>: the version read from \<open>package.json\<close>.
\<close>

record env =
  server :: "string \<Rightarrow> headers \<Rightarrow> netresult"
  validURL :: "string \<Rightarrow> bool"
  createHash :: "string \<Rightarrow> (string \<Rightarrow> string) option"
  Date_parse :: "string \<Rightarrow> int option"
  toISOString :: "int \<Rightarrow> string"
  toLowerCase :: "string \<Rightarrow> string"
  JSON_parse :: "string \<Rightarrow> json option"
  platform :: string
  arch :: string
  installRoot :: string
  packageVersion :: string

definition emit :: "event \<Rightarrow> world \<Rightarrow> world" where
  "emit e w = w\<lparr>trace := trace w @ [e]\<rparr>"

text \<open>The events a run from \<open>w\<close> to \<open>w'\<close> has added.\<close>

definition added :: "world \<Rightarrow> world \<Rightarrow> event list" where
  "added w w' = drop (length (trace w)) (trace w')"

fun isRequest :: "event \<Rightarrow> bool" where
  "isRequest (EvRequest u h) = True"
| "isRequest e = False"

section \<open>Strings\<close>

text \<open>Template literals print a number in decimal.\<close>

function decimal :: "nat \<Rightarrow> string" where
  "decimal n = (if n < 10 then [''0123456789'' ! n]
                else decimal (n div 10) @ [''0123456789'' ! (n mod 10)])"
  by pat_completeness auto
termination
  by (relation "measure id") auto

declare decimal.simps [simp del]

text \<open>
  A string is held in its UTF-8 encoding, one \<open>char\<close> per byte. \<open>String.prototype.trim\<close>
  removes the white space and the line terminators of ECMAScript at both ends:
  U+0009 to U+000D, U+0020, U+00A0, U+1680, U+2000 to U+200A, U+2028, U+2029, U+202F,
  U+205F, U+3000 and U+FEFF. \<open>whiteSpace\<close> lists their encodings.
\<close>

definition whiteSpace :: "string list" where
  "whiteSpace =
     [[CHR 0x09], [CHR 0x0A], [CHR 0x0B], [CHR 0x0C], [CHR 0x0D], [CHR 0x20],
      [CHR 0xC2, CHR 0xA0],
      [CHR 0xE1, CHR 0x9A, CHR 0x80],
      [CHR 0xE2, CHR 0x80, CHR 0x80], [CHR 0xE2, CHR 0x80, CHR 0x81],
      [CHR 0xE2, CHR 0x80, CHR 0x82], [CHR 0xE2, CHR 0x80, CHR 0x83],
      [CHR 0xE2, CHR 0x80, CHR 0x84], [CHR 0xE2, CHR 0x80, CHR 0x85],
      [CHR 0xE2, CHR 0x80, CHR 0x86], [CHR 0xE2, CHR 0x80, CHR 0x87],
      [CHR 0xE2, CHR 0x80, CHR 0x88], [CHR 0xE2, CHR 0x80, CHR 0x89],
      [CHR 0xE2, CHR 0x80, CHR 0x8A],
      [CHR 0xE2, CHR 0x80, CHR 0xA8], [CHR 0xE2, CHR 0x80, CHR 0xA9],
      [CHR 0xE2, CHR 0x80, CHR 0xAF],
      [CHR 0xE2, CHR 0x81, CHR 0x9F],
      [CHR 0xE3, CHR 0x80, CHR 0x80],
      [CHR 0xEF, CHR 0xBB, CHR 0xBF]]"

text \<open>\<open>strip toks s\<close> takes tokens of \<open>toks\<close> off the front of \<open>s\<close> for as long as one is there.\<close>

function strip :: "string list \<Rightarrow> string \<Rightarrow> string" where
  "strip toks s =
     (case find (\<lambda>t. t \<noteq> [] \<and> take (length t) s = t) toks of
        None \<Rightarrow> s
      | Some t \<Rightarrow> strip toks (drop (length t) s))"
  by pat_completeness auto
termination
proof (relation "measure (\<lambda>(toks, s). length s)")
  show "wf (measure (\<lambda>(toks, s). length s))" by simp
next
  fix toks s t
  assume "find (\<lambda>t. t \<noteq> [] \<and> take (length t) s = t) toks = Some t"
  then have "t \<noteq> []" "take (length t) s = t"
    by (auto simp: find_Some_iff)
  then have "s \<noteq> []" by auto
  with \<open>t \<noteq> []\<close> show "((toks, drop (length t) s), (toks, s)) \<in> measure (\<lambda>(toks, s). length s)"
    by simp
qed

declare strip.simps [simp del]

definition trimStart :: "string \<Rightarrow> string" where
  "trimStart s = strip whiteSpace s"

definition trimEnd :: "string \<Rightarrow> string" where
  "trimEnd s = rev (strip (map rev whiteSpace) (rev s))"

definition trim :: "string \<Rightarrow> string" where
  "trim s = trimEnd (trimStart s)"

text \<open>
  The lower-casing of the test environment below: \<open>toLowerCase\<close> as it acts on a string of
  ASCII characters.
\<close>

definition lowerChar :: "char \<Rightarrow> char" where
  "lowerChar c =
     (case map_of (zip ''ABCDEFGHIJKLMNOPQRSTUVWXYZ'' ''abcdefghijklmnopqrstuvwxyz'') c of
        None \<Rightarrow> c
      | Some l \<Rightarrow> l)"

text \<open>\<open>s.split(/:/)\<close>: the pieces between separators; never the empty array.\<close>

fun split :: "char \<Rightarrow> string \<Rightarrow> string list" where
  "split c [] = [[]]"
| "split c (x # xs) =
     (if x = c then [] # split c xs
      else (case split c xs of [] \<Rightarrow> [[x]] | p # ps \<Rightarrow> (x # p) # ps))"

text \<open>Object spread \<open>{...a, ...b}\<close>: the keys of \<open>b\<close> override those of \<open>a\<close>.\<close>

definition spread :: "headers \<Rightarrow> headers \<Rightarrow> headers" where
  "spread a b = fold (\<lambda>(k, v). AList.update k v) b a"

section \<open>HTTP fetcher (http.ts)\<close>

record HttpGetOptions =
  headers :: "headers option"
  maxRedirects :: "int option"
  userAgent :: "string option"

definition noOptions :: HttpGetOptions where
  "noOptions = \<lparr>headers = None, maxRedirects = None, userAgent = None\<rparr>"

text \<open>
  \<open>h.location && maxRedirects > 0\<close> inside the 3xx test: the address to follow, when the
  response is a redirect that is followed.
\<close>

definition redirectTarget :: "nat \<Rightarrow> string option \<Rightarrow> int \<Rightarrow> string option" where
  "redirectTarget sc loc maxR =
     (case loc of
        None \<Rightarrow> None
      | Some l \<Rightarrow> if 300 \<le> sc \<and> sc < 400 \<and> l \<noteq> [] \<and> maxR > 0 then Some l else None)"

definition requestHeaders :: "HttpGetOptions \<Rightarrow> headers" where
  "requestHeaders options =
     spread (case userAgent options of
               None \<Rightarrow> []
             | Some ua \<Rightarrow> if ua = [] then [] else [(''User-Agent'', ua)])
            (case headers options of None \<Rightarrow> [] | Some h \<Rightarrow> h)"

definition redirectsLeft :: "HttpGetOptions \<Rightarrow> int" where
  "redirectsLeft options = (case maxRedirects options of None \<Rightarrow> 5 | Some m \<Rightarrow> m)"

text \<open>
  \<open>httpsGet\<close>: one request per call; a followed redirect is a recursive call with one
  redirect less. A request that ends in a transport error has been issued all the same,
  so it is in the trace.
\<close>

function httpsGet :: "env \<Rightarrow> string \<Rightarrow> HttpGetOptions \<Rightarrow> world \<Rightarrow> (error + response) \<times> world" where
  "httpsGet env url options w =
     (if \<not> validURL env url then (Inl (InvalidURL url), w)
      else
        (case server env url (requestHeaders options) of
           TransportError \<Rightarrow> (Inl TransportFailure, emit (EvRequest url (requestHeaders options)) w)
         | Response res \<Rightarrow>
             (case statusCode res of
                None \<Rightarrow> (Inl (NoStatusCode url), emit (EvRequest url (requestHeaders options)) w)
              | Some sc \<Rightarrow>
                  (case redirectTarget sc (location res) (redirectsLeft options) of
                     Some l \<Rightarrow>
                       httpsGet env l (options\<lparr>maxRedirects := Some (redirectsLeft options - 1)\<rparr>)
                         (emit (EvRequest url (requestHeaders options)) w)
                   | None \<Rightarrow>
                       if sc < 200 \<or> sc \<ge> 300
                       then (Inl (BadStatus url sc), emit (EvRequest url (requestHeaders options)) w)
                       else (Inr res, emit (EvRequest url (requestHeaders options)) w)))))"
  by pat_completeness auto
termination
  by (relation "measure (\<lambda>(env, url, options, w). nat (redirectsLeft options))")
     (auto simp: redirectTarget_def redirectsLeft_def split: option.splits if_splits)

declare httpsGet.simps [simp del]

definition httpsGetWithRange :: "env \<Rightarrow> string \<Rightarrow> nat \<Rightarrow> HttpGetOptions \<Rightarrow> world \<Rightarrow> (error + response) \<times> world" where
  "httpsGetWithRange env url startByte options w =
     (let rangeHeaders =
            spread [(''Range'', ''bytes='' @ decimal startByte @ ''-'')]
                   (case headers options of None \<Rightarrow> [] | Some h \<Rightarrow> h)
      in httpsGet env url (options\<lparr>headers := Some rangeHeaders\<rparr>) w)"

text \<open>The chunks of a response body, in order; \<open>getText\<close> joins them.\<close>

fun chunks :: "sevent list \<Rightarrow> string list" where
  "chunks [] = []"
| "chunks (Data c # es) = c # chunks es"
| "chunks (Compromised # es) = chunks es"

definition getText :: "env \<Rightarrow> string \<Rightarrow> HttpGetOptions \<Rightarrow> world \<Rightarrow> (error + string) \<times> world" where
  "getText env url options w =
     (case httpsGet env url options w of
        (Inl e, w1) \<Rightarrow> (Inl e, w1)
      | (Inr res, w1) \<Rightarrow>
          (case finish res of
             End \<Rightarrow> (Inr (concat (chunks (body res))), w1)
           | StreamError \<Rightarrow> (Inl StreamFailure, w1)))"

definition getJSON :: "env \<Rightarrow> string \<Rightarrow> HttpGetOptions \<Rightarrow> world \<Rightarrow> (error + json) \<times> world" where
  "getJSON env url options w =
     (case getText env url options w of
        (Inl e, w1) \<Rightarrow> (Inl e, w1)
      | (Inr s, w1) \<Rightarrow>
          (case JSON_parse env s of None \<Rightarrow> (Inl JSONError, w1) | Some j \<Rightarrow> (Inr j, w1)))"

section \<open>File-system and lock primitives\<close>

text \<open>
  The primitives of \<open>node:fs\<close> and of the lock library, as far as the program uses them.
  They fail for the reasons the model can see (a missing or an existing path, a
  directory in the way); permissions and device errors are outside the model. A file
  descriptor is modelled by the path of the file it was opened on: between \<open>openSync\<close>
  and \<open>closeSync\<close> the program never moves that file.
\<close>

text \<open>
  Opening or writing a path follows the symbolic links at it; the last link may point at
  a path that does not exist yet. The operating system gives up after 40 links.
\<close>

fun follow :: "nat \<Rightarrow> (path \<Rightarrow> node option) \<Rightarrow> path \<Rightarrow> error + path" where
  "follow 0 f p = (case f p of Some (Symlink t) \<Rightarrow> Inl (FsError ''ELOOP'' p) | _ \<Rightarrow> Inr p)"
| "follow (Suc k) f p = (case f p of Some (Symlink t) \<Rightarrow> follow k f t | _ \<Rightarrow> Inr p)"

text \<open>
  Flag \<open>'w+'\<close>: "open for reading and writing; the file is created (if it does not exist)
  or truncated (if it exists)". Flag \<open>'a+'\<close> creates the file as well and keeps what it
  holds. The descriptor is the file the path leads to.
\<close>

datatype oflag = W_plus | A_plus

definition openSync :: "path \<Rightarrow> oflag \<Rightarrow> world \<Rightarrow> (error + path) \<times> world" where
  "openSync p flag w =
     (case follow 40 (fs w) p of
        Inl e \<Rightarrow> (Inl e, w)
      | Inr q \<Rightarrow>
          (case fs w q of
             None \<Rightarrow> (Inr q, emit (EvOpen p) (w\<lparr>fs := (fs w)(q \<mapsto> File [])\<rparr>))
           | Some (File old) \<Rightarrow>
               (Inr q, emit (EvOpen p)
                         (w\<lparr>fs := (fs w)(q \<mapsto> File (case flag of W_plus \<Rightarrow> [] | A_plus \<Rightarrow> old))\<rparr>))
           | Some Dir \<Rightarrow> (Inl (FsError ''EISDIR'' p), w)
           | Some (Symlink t) \<Rightarrow> (Inl (FsError ''ELOOP'' p), w)))"

definition contents :: "path \<Rightarrow> world \<Rightarrow> string" where
  "contents fd w = (case fs w fd of Some (File c) \<Rightarrow> c | _ \<Rightarrow> [])"

text \<open>A positional write: the chunk lands at \<open>position\<close>, a gap is filled with zero bytes.\<close>

definition pwrite :: "string \<Rightarrow> nat \<Rightarrow> string \<Rightarrow> string" where
  "pwrite old position chunk =
     take position old @ replicate (position - length old) (CHR 0x00) @ chunk
       @ drop (position + length chunk) old"

definition writeSync :: "path \<Rightarrow> string \<Rightarrow> nat \<Rightarrow> world \<Rightarrow> world" where
  "writeSync fd chunk position w =
     (case fs w fd of
        Some (File old) \<Rightarrow>
          emit (EvWrite fd position (length chunk))
            (w\<lparr>fs := (fs w)(fd \<mapsto> File (pwrite old position chunk))\<rparr>)
      | _ \<Rightarrow> w)"

definition readSync :: "path \<Rightarrow> nat \<Rightarrow> nat \<Rightarrow> world \<Rightarrow> string" where
  "readSync fd len position w = take len (drop position (contents fd w))"

text \<open>Flushing and closing a descriptor change nothing the model observes.\<close>

definition fsyncSync :: "path \<Rightarrow> world \<Rightarrow> world" where
  "fsyncSync fd w = w"

definition closeSync :: "path \<Rightarrow> world \<Rightarrow> world" where
  "closeSync fd w = w"

definition unlinkSync :: "path \<Rightarrow> world \<Rightarrow> (error + unit) \<times> world" where
  "unlinkSync p w =
     (case fs w p of
        None \<Rightarrow> (Inl (FsError ''ENOENT'' p), w)
      | Some Dir \<Rightarrow> (Inl (FsError ''EISDIR'' p), w)
      | Some n \<Rightarrow> (Inr (), emit (EvUnlink p) (w\<lparr>fs := (fs w)(p := None)\<rparr>)))"

definition renameSync :: "path \<Rightarrow> path \<Rightarrow> world \<Rightarrow> (error + unit) \<times> world" where
  "renameSync src dst w =
     (case fs w src of
        None \<Rightarrow> (Inl (FsError ''ENOENT'' src), w)
      | Some n \<Rightarrow>
          if fs w dst = Some Dir then (Inl (FsError ''EISDIR'' dst), w)
          else (Inr (), emit (EvRename src dst) (w\<lparr>fs := (fs w)(src := None, dst \<mapsto> n)\<rparr>)))"

text \<open>
  \<open>plf.lock\<close> is called without retries: it rejects when the marker is held, by this or by
  another process (a marker that has gone stale, which the library would take over, counts
  as not held). \<open>release\<close> takes the marker away; its own failure is swallowed by the
  caller.
\<close>

definition lock :: "path \<Rightarrow> world \<Rightarrow> (error + unit) \<times> world" where
  "lock p w =
     (if p \<in> locks w then (Inl (LockFailure p), w)
      else (Inr (), emit (EvLock p) (w\<lparr>locks := insert p (locks w)\<rparr>)))"

definition release :: "path \<Rightarrow> world \<Rightarrow> world" where
  "release p w = emit (EvRelease p) (w\<lparr>locks := locks w - {p}\<rparr>)"

section \<open>Resumable downloader (resumable.ts)\<close>

text \<open>
  \<open>checkIntegrity\<close>: the do-while loop reads the file in blocks of 64 KiB from position 0
  and feeds each block to the hash object; \<open>hashed\<close> is what the hash object has been fed
  so far, and \<open>hash\<close> is the digest function \<open>crypto.createHash\<close> returned, applied to that.
\<close>

function digestLoop :: "path \<Rightarrow> world \<Rightarrow> nat \<Rightarrow> string \<Rightarrow> string" where
  "digestLoop fd w position hashed =
     (if length (readSync fd (64 * 1024) position w) > 0
      then digestLoop fd w (position + length (readSync fd (64 * 1024) position w))
             (hashed @ readSync fd (64 * 1024) position w)
      else hashed)"
  by pat_completeness auto
termination
  by (relation "measure (\<lambda>(fd, w, position, hashed). length (contents fd w) - position)")
     (auto simp: readSync_def)

declare digestLoop.simps [simp del]

definition checkIntegrity :: "path \<Rightarrow> (string \<Rightarrow> string) \<Rightarrow> string \<Rightarrow> world \<Rightarrow> bool" where
  "checkIntegrity fd hash expectedDigestHex w = (hash (digestLoop fd w 0 []) = expectedDigestHex)"

text \<open>
  \<open>saveToDisk\<close>: the handlers of \<open>data\<close>, \<open>end\<close> and \<open>error\<close>, run over the events in the
  order of their arrival. \<open>aborted\<close> is the flag the closure \<open>aborted()\<close> reads (set by
  \<open>onCompromised\<close>, never reset); \<open>rejected\<close> is the reason of the first \<open>reject\<close>, since a
  promise keeps its first settlement and the handlers stay attached after it.
\<close>

fun saveToDisk :: "sevent list \<Rightarrow> sfinish \<Rightarrow> path \<Rightarrow> nat \<Rightarrow> bool \<Rightarrow> error option \<Rightarrow> world
    \<Rightarrow> (error + unit) \<times> world" where
  "saveToDisk [] fin fd currentOffset aborted rejected w =
     (case rejected of
        Some e \<Rightarrow> (Inl e, w)
      | None \<Rightarrow>
          (case fin of
             End \<Rightarrow> if aborted then (Inl Aborted, w) else (Inr (), w)
           | StreamError \<Rightarrow> (Inl StreamFailure, w)))"
| "saveToDisk (Compromised # es) fin fd currentOffset aborted rejected w =
     saveToDisk es fin fd currentOffset True rejected w"
| "saveToDisk (Data chunk # es) fin fd currentOffset aborted rejected w =
     (if aborted
      then saveToDisk es fin fd currentOffset aborted
             (case rejected of None \<Rightarrow> Some Aborted | Some e \<Rightarrow> Some e) w
      else saveToDisk es fin fd (currentOffset + length chunk) aborted rejected
             (writeSync fd chunk currentOffset w))"

definition downloadWithResume :: "env \<Rightarrow> string \<Rightarrow> path \<Rightarrow> nat \<Rightarrow> bool \<Rightarrow> (string \<Rightarrow> string) \<Rightarrow> string
    \<Rightarrow> path \<Rightarrow> world \<Rightarrow> (error + response) \<times> world" where
  "downloadWithResume env url fd bytesAlreadyDownloaded aborted hash expectedDigestHex
       pendingDownloadPath w =
     (case httpsGetWithRange env url bytesAlreadyDownloaded noOptions w of
        (Inl e, w1) \<Rightarrow> (Inl e, w1)
      | (Inr res, w1) \<Rightarrow>
          (case saveToDisk (body res) (finish res) fd bytesAlreadyDownloaded aborted None w1 of
             (Inl e, w2) \<Rightarrow> (Inl e, w2)
           | (Inr u, w2) \<Rightarrow>
               if \<not> checkIntegrity fd hash expectedDigestHex (fsyncSync fd w2)
               then (case unlinkSync pendingDownloadPath (fsyncSync fd w2) of
                       (Inl e, w3) \<Rightarrow> (Inl e, w3)
                     | (Inr u', w3) \<Rightarrow> (Inl IntegrityCheckFailed, w3))
               else (Inr res, closeSync fd (fsyncSync fd w2))))"

definition getSizeOnDisk :: "path \<Rightarrow> world \<Rightarrow> nat" where
  "getSizeOnDisk fd w = (case fs w fd of Some (File c) \<Rightarrow> length c | _ \<Rightarrow> 0)"

text \<open>
  \<open>eagerAcquireLockAndDownload\<close>. The \<open>finally\<close> block (release of the lock, closing the
  descriptor, both with their errors swallowed) runs on every path out of
  \<open>downloadWithResume\<close>; the rename is reached only when that call returned.
\<close>

definition eagerAcquireLockAndDownload :: "env \<Rightarrow> string \<Rightarrow> path \<Rightarrow> string \<Rightarrow> string \<Rightarrow> world
    \<Rightarrow> (error + unit) \<times> world" where
  "eagerAcquireLockAndDownload env url destination expectedDigestAlgo expectedDigestHex w =
     (case createHash env expectedDigestAlgo of
        None \<Rightarrow> (Inl (UnknownDigestAlgorithm expectedDigestAlgo), w)
      | Some hash \<Rightarrow>
          (case lock (destination @ ''.lock'') w of
             (Inl e, w1) \<Rightarrow> (Inl e, w1)
           | (Inr u, w1) \<Rightarrow>
               (case openSync (destination @ ''.dl'') W_plus w1 of
                  (Inl e, w2) \<Rightarrow> (Inl e, w2)
                | (Inr fd, w2) \<Rightarrow>
                    (case downloadWithResume env url fd (getSizeOnDisk fd w2) False hash
                            expectedDigestHex (destination @ ''.dl'') w2 of
                       (Inl e, w3) \<Rightarrow>
                         (Inl e, closeSync fd (release (destination @ ''.lock'') w3))
                     | (Inr res, w3) \<Rightarrow>
                         renameSync (destination @ ''.dl'') destination
                           (closeSync fd (release (destination @ ''.lock'') w3))))))"

section \<open>Paths, links and whole files\<close>

text \<open>
  \<open>path.join\<close> and \<open>path.dirname\<close> on paths that need no normalisation: the segments
  joined are taken as they are, so a segment such as \<open>..\<close> or one that holds a \<open>/\<close>, which
  \<open>path.join\<close> would resolve, is not. Symbolic links hold
  absolute targets (the program links to \<open>assetPath\<close>, which is absolute); \<open>realpathSync\<close>
  follows them, giving up after 40 links as the operating system does.
\<close>

definition path_join :: "path \<Rightarrow> string \<Rightarrow> path" where
  "path_join a b = a @ ''/'' @ b"

definition dirname :: "path \<Rightarrow> path" where
  "dirname p =
     (if CHR ''/'' \<notin> set p then ''.''
      else if rev (drop 1 (dropWhile (\<lambda>c. c \<noteq> CHR ''/'') (rev p))) = [] then ''/''
      else rev (drop 1 (dropWhile (\<lambda>c. c \<noteq> CHR ''/'') (rev p))))"

fun resolve :: "nat \<Rightarrow> (path \<Rightarrow> node option) \<Rightarrow> path \<Rightarrow> error + path" where
  "resolve 0 f p =
     (case f p of
        None \<Rightarrow> Inl (FsError ''ENOENT'' p)
      | Some (Symlink t) \<Rightarrow> Inl (FsError ''ELOOP'' p)
      | Some n \<Rightarrow> Inr p)"
| "resolve (Suc k) f p =
     (case f p of
        None \<Rightarrow> Inl (FsError ''ENOENT'' p)
      | Some (Symlink t) \<Rightarrow> resolve k f t
      | Some n \<Rightarrow> Inr p)"

definition realpathSync :: "path \<Rightarrow> world \<Rightarrow> error + path" where
  "realpathSync p w = resolve 40 (fs w) p"

definition existsSync :: "path \<Rightarrow> world \<Rightarrow> bool" where
  "existsSync p w = (case realpathSync p w of Inl e \<Rightarrow> False | Inr q \<Rightarrow> True)"

definition lstatSync :: "path \<Rightarrow> world \<Rightarrow> error + node" where
  "lstatSync p w = (case fs w p of None \<Rightarrow> Inl (FsError ''ENOENT'' p) | Some n \<Rightarrow> Inr n)"

definition readFileSync :: "path \<Rightarrow> world \<Rightarrow> error + string" where
  "readFileSync p w =
     (case realpathSync p w of
        Inl e \<Rightarrow> Inl e
      | Inr q \<Rightarrow> (case fs w q of Some (File c) \<Rightarrow> Inr c | _ \<Rightarrow> Inl (FsError ''EISDIR'' q)))"

text \<open>\<open>writeFileSync\<close> creates or replaces the file the path leads to.\<close>

definition writeFileSync :: "path \<Rightarrow> string \<Rightarrow> world \<Rightarrow> (error + unit) \<times> world" where
  "writeFileSync p content w =
     (case follow 40 (fs w) p of
        Inl e \<Rightarrow> (Inl e, w)
      | Inr q \<Rightarrow>
          (case fs w q of
             Some Dir \<Rightarrow> (Inl (FsError ''EISDIR'' p), w)
           | Some (Symlink t) \<Rightarrow> (Inl (FsError ''ELOOP'' p), w)
           | _ \<Rightarrow> (Inr (), emit (EvWriteFile p) (w\<lparr>fs := (fs w)(q \<mapsto> File content)\<rparr>))))"

text \<open>
  \<open>mkdirSync(p, {recursive: true})\<close>: no error when the path is a directory already, or a
  link that leads to one.
\<close>

definition mkdirSync :: "path \<Rightarrow> world \<Rightarrow> (error + unit) \<times> world" where
  "mkdirSync p w =
     (case fs w p of
        None \<Rightarrow> (Inr (), emit (EvMkdir p) (w\<lparr>fs := (fs w)(p \<mapsto> Dir)\<rparr>))
      | Some Dir \<Rightarrow> (Inr (), w)
      | Some (File c) \<Rightarrow> (Inl (FsError ''EEXIST'' p), w)
      | Some (Symlink t) \<Rightarrow>
          (case realpathSync p w of
             Inl e \<Rightarrow> (Inl (FsError ''EEXIST'' p), w)
           | Inr q \<Rightarrow> if fs w q = Some Dir then (Inr (), w) else (Inl (FsError ''EEXIST'' p), w)))"

definition symlinkSync :: "path \<Rightarrow> path \<Rightarrow> world \<Rightarrow> (error + unit) \<times> world" where
  "symlinkSync target p w =
     (case fs w p of
        None \<Rightarrow> (Inr (), emit (EvSymlink target p) (w\<lparr>fs := (fs w)(p \<mapsto> Symlink target)\<rparr>))
      | Some n \<Rightarrow> (Inl (FsError ''EEXIST'' p), w))"

text \<open>\<open>rmSync(p, {recursive: true, force: true})\<close>: the path and all below it go away.\<close>

definition rmSync :: "path \<Rightarrow> world \<Rightarrow> world" where
  "rmSync p w =
     emit (EvRmTree p)
       (w\<lparr>fs := (\<lambda>q. if q = p \<or> take (length p + 1) q = p @ ''/'' then None else fs w q)\<rparr>)"

section \<open>Helpers (util.ts) and release resolver (github.ts)\<close>

text \<open>In a condition, \<open>null\<close> and the empty string both count as false.\<close>

definition truthy :: "string option \<Rightarrow> string option" where
  "truthy v = (case v of None \<Rightarrow> None | Some s \<Rightarrow> if s = [] then None else Some s)"

text \<open>
  \<open>swallowError\<close> runs the callback inside a \<open>try\<close> and then evaluates
  \<open>'catch' in returnVal\<close> inside the same \<open>try\<close>. What comes back depends on the kind of
  value the callback returned:
  \<^item> a primitive (a string, a boolean, \<open>undefined\<close>): the operator \<open>in\<close> throws a
    \<open>TypeError\<close>, the \<open>catch\<close> block swallows it and the function returns \<open>null\<close>;
  \<^item> a promise: the function returns \<open>returnVal.catch(() => {})\<close>; the model gives what
    awaiting it yields, \<open>None\<close> standing for the \<open>undefined\<close> of a rejection;
  \<^item> any other object: the value itself.

  The effects of the callback happen in every case. A callback that throws gives \<open>null\<close>.
\<close>

datatype valueKind = Primitive | Thenable | PlainObject

definition swallowError :: "valueKind \<Rightarrow> (world \<Rightarrow> (error + 'a) \<times> world) \<Rightarrow> world
    \<Rightarrow> 'a option \<times> world" where
  "swallowError kind cb w =
     (case cb w of
        (Inl e, w1) \<Rightarrow> (None, w1)
      | (Inr returnVal, w1) \<Rightarrow>
          (case kind of
             Primitive \<Rightarrow> (None, w1)
           | Thenable \<Rightarrow> (Some returnVal, w1)
           | PlainObject \<Rightarrow> (Some returnVal, w1)))"

definition mapPlatform :: "env \<Rightarrow> string" where
  "mapPlatform env =
     (if platform env = ''darwin'' then ''macos''
      else if platform env = ''win32'' then ''windows''
      else if platform env = ''linux'' then ''linux''
      else platform env)"

definition mapArch :: "env \<Rightarrow> string" where
  "mapArch env =
     (if arch env = ''x64'' then ''x86_64''
      else if arch env = ''arm64'' then ''arm64''
      else arch env)"

definition expectedAssetName :: "env \<Rightarrow> error + string" where
  "expectedAssetName env =
     (if mapPlatform env = ''windows'' \<and> mapArch env = ''x86_64'' then Inr ''sfw-free-windows-x86_64.exe''
      else if mapPlatform env = ''macos'' \<and> (mapArch env = ''arm64'' \<or> mapArch env = ''x86_64'')
        then Inr (''sfw-free-macos-'' @ mapArch env)
      else if mapPlatform env = ''linux'' \<and> mapArch env = ''x86_64'' then Inr ''sfw-free-linux-x86_64''
      else Inl (NoPublishedAsset (platform env) (arch env)))"

record LatestRelease =
  rel_tag :: "string option"
  rel_name :: "string option"
  rel_assets :: "Asset list"

definition LATEST_API :: string where
  "LATEST_API = ''https://api.github.com/repos/SocketDev/sfw-free/releases/latest''"

definition USER_AGENT :: "env \<Rightarrow> string" where
  "USER_AGENT env = ''sfw-free/'' @ packageVersion env"

text \<open>\<open>json.name || json.tag_name\<close>: the name unless it is missing or empty.\<close>

definition fetchLatest :: "env \<Rightarrow> world \<Rightarrow> (error + LatestRelease) \<times> world" where
  "fetchLatest env w =
     (case getJSON env LATEST_API (noOptions\<lparr>userAgent := Some (USER_AGENT env)\<rparr>) w of
        (Inl e, w1) \<Rightarrow> (Inl e, w1)
      | (Inr j, w1) \<Rightarrow>
          (Inr \<lparr>rel_tag = json_tag_name j,
                rel_name = (case json_name j of
                              None \<Rightarrow> json_tag_name j
                            | Some n \<Rightarrow> if n = [] then json_tag_name j else Some n),
                rel_assets = (case json_assets j of None \<Rightarrow> [] | Some as \<Rightarrow> as)\<rparr>, w1))"

definition findAssetUrl :: "Asset list \<Rightarrow> string \<Rightarrow> (string \<times> string) option" where
  "findAssetUrl as n =
     (case find (\<lambda>x. asset_name x = n) as of
        None \<Rightarrow> None
      | Some a \<Rightarrow> Some (browser_download_url a, digest a))"

section \<open>Cache store and update scheduler (sfw.ts)\<close>

definition NEXT_CHECK_FILE :: string where
  "NEXT_CHECK_FILE = ''.sfw-cache/next-check''"

definition ONE_DAY_MS :: int where
  "ONE_DAY_MS = 24 * 60 * 60 * 1000"

definition NEXT_CHECK_PATH :: "env \<Rightarrow> path" where
  "NEXT_CHECK_PATH env = path_join (installRoot env) NEXT_CHECK_FILE"

definition LATEST_SYMLINK_PATH :: "env \<Rightarrow> path" where
  "LATEST_SYMLINK_PATH env = path_join (path_join (installRoot env) ''.sfw-cache'') ''latest''"

record LatestBinary =
  tag :: string
  bin :: string

definition findValidCachedReleaseSync :: "env \<Rightarrow> world \<Rightarrow> string option" where
  "findValidCachedReleaseSync env w =
     (if existsSync (LATEST_SYMLINK_PATH env) w
      then (case realpathSync (LATEST_SYMLINK_PATH env) w of
              Inl e \<Rightarrow> None
            | Inr binPath \<Rightarrow> if existsSync binPath w then Some binPath else None)
      else None)"

definition getCachePaths :: "env \<Rightarrow> string \<Rightarrow> string \<Rightarrow> path \<times> path" where
  "getCachePaths env releaseName assetName =
     (path_join (path_join (installRoot env) ''.sfw-cache'') releaseName,
      path_join (path_join (path_join (installRoot env) ''.sfw-cache'') releaseName) assetName)"

definition shouldCheckForUpdate :: "env \<Rightarrow> world \<Rightarrow> bool" where
  "shouldCheckForUpdate env w =
     (case readFileSync (NEXT_CHECK_PATH env) w of
        Inl e \<Rightarrow> True
      | Inr content \<Rightarrow>
          (case Date_parse env (trim content) of
             None \<Rightarrow> True
           | Some nextCheck \<Rightarrow> now w > nextCheck))"

definition setNextCheckTimeSync :: "env \<Rightarrow> world \<Rightarrow> (error + unit) \<times> world" where
  "setNextCheckTimeSync env w =
     (case mkdirSync (dirname (NEXT_CHECK_PATH env)) w of
        (Inl e, w1) \<Rightarrow> (Inl e, w1)
      | (Inr u, w1) \<Rightarrow>
          writeFileSync (NEXT_CHECK_PATH env) (toISOString env (now w + ONE_DAY_MS)) w1)"

text \<open>
  Permissions and extended attributes are not part of the modelled file system, so
  \<open>xattr\<close> and \<open>chmodSync\<close> (run through \<open>swallowError\<close>, its result unused) change nothing.
\<close>

definition tryClearQuarantine :: "env \<Rightarrow> path \<Rightarrow> world \<Rightarrow> world" where
  "tryClearQuarantine env p w = w"

definition ensureExecutable :: "env \<Rightarrow> path \<Rightarrow> world \<Rightarrow> world" where
  "ensureExecutable env p w = w"

definition isENOENT :: "error \<Rightarrow> bool" where
  "isENOENT e = (case e of FsError c p \<Rightarrow> c = ''ENOENT'' | _ \<Rightarrow> False)"

definition removeSymlink :: "path \<Rightarrow> world \<Rightarrow> (error + unit) \<times> world" where
  "removeSymlink symlinkPath w =
     (case lstatSync symlinkPath w of
        Inl e \<Rightarrow> if isENOENT e then (Inr (), w) else (Inl e, w)
      | Inr n \<Rightarrow>
          (case unlinkSync symlinkPath w of
             (Inl e, w1) \<Rightarrow> if isENOENT e then (Inr (), w1) else (Inl e, w1)
           | (Inr u, w1) \<Rightarrow> (Inr (), w1)))"

text \<open>
  \<open>trySymlinkLatest\<close>: an error of the removal or of the link creation is printed and not
  thrown, so the function returns the world only. \<open>previousBin\<close> is what \<open>swallowError\<close>
  returns for a callback whose value is the string of \<open>realpathSync\<close>.
\<close>

definition trySymlinkLatest :: "env \<Rightarrow> path \<Rightarrow> world \<Rightarrow> world" where
  "trySymlinkLatest env assetPath w =
     (case swallowError Primitive (\<lambda>w. (realpathSync (LATEST_SYMLINK_PATH env) w, w)) w of
        (previousBin, w0) \<Rightarrow>
          (case removeSymlink (LATEST_SYMLINK_PATH env)
                  (case truthy previousBin of
                     None \<Rightarrow> w0
                   | Some previous \<Rightarrow>
                       if previous \<noteq> assetPath
                       then snd (swallowError Primitive
                                   (\<lambda>w. (Inr (), rmSync (dirname previous) w)) w0)
                       else w0) of
             (Inl e, w1) \<Rightarrow> w1
           | (Inr u, w1) \<Rightarrow> snd (symlinkSync assetPath (LATEST_SYMLINK_PATH env) w1)))"

text \<open>
  \<open>const [algo, hex] = digest.trim().toLowerCase().split(/:/)\<close> and the test
  \<open>!algo || !hex\<close>: \<open>hex\<close> is undefined when there is no second piece.
\<close>

definition splitDigest :: "env \<Rightarrow> string \<Rightarrow> (string \<times> string) option" where
  "splitDigest env d =
     (case split (CHR '':'') (toLowerCase env (trim d)) of
        algo # hex # rest \<Rightarrow> if algo = [] \<or> hex = [] then None else Some (algo, hex)
      | _ \<Rightarrow> None)"

definition downloadAndVerifyReleaseSync :: "env \<Rightarrow> LatestRelease \<Rightarrow> string \<Rightarrow> world
    \<Rightarrow> (error + LatestBinary) \<times> world" where
  "downloadAndVerifyReleaseSync env rel assetName w =
     (case rel_name rel of
        None \<Rightarrow> (Inl NameNotAString, w)
      | Some name \<Rightarrow>
          (case mkdirSync (fst (getCachePaths env name assetName)) w of
             (Inl e, w1) \<Rightarrow> (Inl e, w1)
           | (Inr u, w1) \<Rightarrow>
               (case findAssetUrl (rel_assets rel) assetName of
                  None \<Rightarrow> (Inl (AssetMissing assetName), w1)
                | Some (url, dg) \<Rightarrow>
                    (case splitDigest env dg of
                       None \<Rightarrow> (Inl InvalidDigest, w1)
                     | Some (algo, hex) \<Rightarrow>
                         if existsSync (snd (getCachePaths env name assetName)) w1
                         then (Inr \<lparr>tag = name, bin = snd (getCachePaths env name assetName)\<rparr>, w1)
                         else
                           (case eagerAcquireLockAndDownload env url
                                   (snd (getCachePaths env name assetName)) algo hex w1 of
                              (Inl e, w2) \<Rightarrow> (Inl e, w2)
                            | (Inr u', w2) \<Rightarrow>
                                (Inr \<lparr>tag = name, bin = snd (getCachePaths env name assetName)\<rparr>,
                                 trySymlinkLatest env (snd (getCachePaths env name assetName))
                                   (tryClearQuarantine env (snd (getCachePaths env name assetName))
                                      (ensureExecutable env (snd (getCachePaths env name assetName))
                                         w2))))))))"

text \<open>
  The function passed to \<open>swallowError\<close> in \<open>ensureLatestBinary\<close>: resolve the latest
  release, then download and publish it.
\<close>

definition refreshAttempt :: "env \<Rightarrow> string \<Rightarrow> world \<Rightarrow> (error + LatestBinary) \<times> world" where
  "refreshAttempt env assetName w =
     (case fetchLatest env w of
        (Inl e, w1) \<Rightarrow> (Inl e, w1)
      | (Inr latest, w1) \<Rightarrow> downloadAndVerifyReleaseSync env latest assetName w1)"

text \<open>
  \<open>ensureLatestBinary\<close>. The world of the result is the world at the moment the returned
  promise settles; the callback given to \<open>swallowError\<close> is an \<open>async\<close> function, whose
  value is a promise, and \<open>await swallowError(...)\<close> suspends the function until the attempt
  has settled, so the attempt's effects are in it.
\<close>

definition ensureLatestBinary :: "env \<Rightarrow> world \<Rightarrow> (error + LatestBinary) \<times> world" where
  "ensureLatestBinary env w =
     (case expectedAssetName env of
        Inl e \<Rightarrow> (Inl e, w)
      | Inr assetName \<Rightarrow>
          (case truthy (findValidCachedReleaseSync env w) of
             None \<Rightarrow>
               (case setNextCheckTimeSync env w of
                  (Inl e, w1) \<Rightarrow> (Inl e, w1)
                | (Inr u, w1) \<Rightarrow>
                    (case fetchLatest env w1 of
                       (Inl e, w2) \<Rightarrow> (Inl UnableToFetch, w2)
                     | (Inr releaseInfo, w2) \<Rightarrow>
                         downloadAndVerifyReleaseSync env releaseInfo assetName w2))
           | Some cached \<Rightarrow>
               if shouldCheckForUpdate env w
               then (case setNextCheckTimeSync env w of
                       (Inl e, w1) \<Rightarrow> (Inl e, w1)
                     | (Inr u, w1) \<Rightarrow>
                         (Inr \<lparr>tag = ''cached'', bin = cached\<rparr>,
                          snd (swallowError Thenable (refreshAttempt env assetName) w1)))
               else (Inr \<lparr>tag = ''cached'', bin = cached\<rparr>, w)))"

section \<open>The older copy of the publish step\<close>

text \<open>
  The repository holds an older copy of the program in one file. Its
  \<open>downloadAndVerifyReleaseSync\<close> publishes inline, in this order: resolve the previous
  target, create the link, then remove the previous release's directory.
\<close>

definition publishLegacy :: "env \<Rightarrow> path \<Rightarrow> world \<Rightarrow> world" where
  "publishLegacy env assetPath w =
     (case symlinkSync assetPath (LATEST_SYMLINK_PATH env) w of
        (Inl e, w1) \<Rightarrow> w1
      | (Inr u, w1) \<Rightarrow>
          (case realpathSync (LATEST_SYMLINK_PATH env) w of
             Inl e \<Rightarrow> w1
           | Inr previousBin \<Rightarrow>
               if previousBin \<noteq> [] \<and> previousBin \<noteq> assetPath
               then rmSync (dirname previousBin) w1 else w1))"

section \<open>Statement helpers and a test environment\<close>

text \<open>
  \<open>answered2xx env e res\<close>: the event \<open>e\<close> is a request that the server answers with the
  response \<open>res\<close>, whose status is in the 2xx range.
\<close>

definition answered2xx :: "env \<Rightarrow> event \<Rightarrow> response \<Rightarrow> bool" where
  "answered2xx env e res =
     (case e of
        EvRequest u h \<Rightarrow>
          server env u h = Response res \<and>
          (case statusCode res of None \<Rightarrow> False | Some sc \<Rightarrow> 200 \<le> sc \<and> sc < 300)
      | _ \<Rightarrow> False)"

text \<open>\<open>rangeRequest n e\<close>: the event \<open>e\<close> is a request whose only header is \<open>Range: bytes=n-\<close>.\<close>

definition rangeRequest :: "nat \<Rightarrow> event \<Rightarrow> bool" where
  "rangeRequest n e =
     (case e of EvRequest u h \<Rightarrow> h = [(''Range'', ''bytes='' @ decimal n @ ''-'')] | _ \<Rightarrow> False)"

text \<open>
  A small concrete environment on which the theorems below are exercised: a Linux x64
  machine, a toy digest (the byte sum modulo 256, in decimal), a server with a release
  \<open>v2\<close> whose asset sits behind one redirect, a few misbehaving addresses, and strings
  of ASCII characters only.
\<close>

definition demoHash :: "string \<Rightarrow> string" where
  "demoHash s = decimal (sum_list (map of_char s) mod 256)"

definition demoAsset :: Asset where
  "demoAsset = \<lparr>asset_name = ''sfw-free-linux-x86_64'',
                 browser_download_url = ''https://a/sfw'',
                 digest = ''SHA256:85''\<rparr>"

definition demoServer :: "string \<Rightarrow> headers \<Rightarrow> netresult" where
  "demoServer url hs =
     (if url = LATEST_API
        then Response \<lparr>statusCode = Some 200, location = None, body = [Data ''v2''], finish = End\<rparr>
      else if url = ''https://a/sfw''
        then Response \<lparr>statusCode = Some 302, location = Some ''https://b/sfw'', body = [], finish = End\<rparr>
      else if url = ''https://b/sfw''
        then (if map_of hs ''Range'' = Some ''bytes=3-''
              then Response \<lparr>statusCode = Some 206, location = None, body = [Data ''def''], finish = End\<rparr>
              else Response \<lparr>statusCode = Some 200, location = None,
                             body = [Data ''abc'', Data ''def''], finish = End\<rparr>)
      else if url = ''https://b/bad''
        then Response \<lparr>statusCode = Some 200, location = None,
                        body = [Data ''abx'', Data ''def''], finish = End\<rparr>
      else if url = ''https://b/cut''
        then Response \<lparr>statusCode = Some 200, location = None,
                        body = [Data ''abc'', Compromised, Data ''def''], finish = End\<rparr>
      else if url = ''https://b/304''
        then Response \<lparr>statusCode = Some 304, location = None, body = [], finish = End\<rparr>
      else if url = ''https://b/loop''
        then Response \<lparr>statusCode = Some 302, location = Some ''https://b/loop'', body = [], finish = End\<rparr>
      else TransportError)"

definition demoEnv :: env where
  "demoEnv =
     \<lparr>server = demoServer,
      validURL = (\<lambda>u. take 8 u = ''https://''),
      createHash = (\<lambda>a. if a = ''sha256'' then Some demoHash else None),
      Date_parse = (\<lambda>s. if s = ''2026-01-01T00:00:00.000Z'' then Some 1767225600000
                          else if s = ''2026-01-03T00:00:00.000Z'' then Some 1767398400000
                          else None),
      toISOString = (\<lambda>t. if t = 1767398400000 then ''2026-01-03T00:00:00.000Z''
                           else ''2026-01-01T00:00:00.000Z''),
      toLowerCase = map lowerChar,
      JSON_parse = (\<lambda>s. if s = ''v2''
                          then Some \<lparr>json_tag_name = Some ''v2'', json_name = None,
                                     json_assets = Some [demoAsset]\<rparr>
                          else None),
      platform = ''linux'',
      arch = ''x64'',
      installRoot = ''/r'',
      packageVersion = ''1.0.0''\<rparr>"

text \<open>An empty cache at the start of 2 January 2026, UTC (in milliseconds since the epoch).\<close>

definition emptyWorld :: world where
  "emptyWorld = \<lparr>fs = Map.empty, locks = {}, now = 1767312000000, trace = []\<rparr>"

text \<open>
  A cache that holds release \<open>v1\<close>, selected by \<open>latest\<close>; the content of \<open>next-check\<close>
  is a parameter.
\<close>

definition cachedWorld :: "string \<Rightarrow> world" where
  "cachedWorld deadline =
     \<lparr>fs = [''/r/.sfw-cache/latest'' \<mapsto> Symlink ''/r/.sfw-cache/v1/sfw-free-linux-x86_64'',
             ''/r/.sfw-cache/v1/sfw-free-linux-x86_64'' \<mapsto> File ''old'',
             ''/r/.sfw-cache/next-check'' \<mapsto> File deadline],
      locks = {}, now = 1767312000000, trace = []\<rparr>"

text \<open>
  The cache with release \<open>v1\<close> and a deadline that has passed, its directories included.
\<close>

definition staleWorld :: world where
  "staleWorld =
     \<lparr>fs = [''/r/.sfw-cache'' \<mapsto> Dir,
             ''/r/.sfw-cache/v1'' \<mapsto> Dir,
             ''/r/.sfw-cache/latest'' \<mapsto> Symlink ''/r/.sfw-cache/v1/sfw-free-linux-x86_64'',
             ''/r/.sfw-cache/v1/sfw-free-linux-x86_64'' \<mapsto> File ''old'',
             ''/r/.sfw-cache/next-check'' \<mapsto> File ''2026-01-01T00:00:00.000Z''],
      locks = {}, now = 1767312000000, trace = []\<rparr>"

text \<open>A pending file that already holds the first three bytes of the payload.\<close>

definition resumeWorld :: world where
  "resumeWorld = emptyWorld\<lparr>fs := [''/r/bin.dl'' \<mapsto> File ''abc'']\<rparr>"

section \<open>Properties of the HTTP fetcher\<close>


lemma httpsGet_invalid:
  "\<not> validURL env url \<Longrightarrow> httpsGet env url options w = (Inl (InvalidURL url), w)"
  by (subst httpsGet.simps) simp

lemma httpsGet_transport:
  "validURL env url \<Longrightarrow> server env url (requestHeaders options) = TransportError \<Longrightarrow>
   httpsGet env url options w = (Inl TransportFailure, emit (EvRequest url (requestHeaders options)) w)"
  by (subst httpsGet.simps) simp

lemma httpsGet_nostatus:
  "validURL env url \<Longrightarrow> server env url (requestHeaders options) = Response res \<Longrightarrow>
   statusCode res = None \<Longrightarrow>
   httpsGet env url options w = (Inl (NoStatusCode url), emit (EvRequest url (requestHeaders options)) w)"
  by (subst httpsGet.simps) simp

lemma httpsGet_redirect:
  "validURL env url \<Longrightarrow> server env url (requestHeaders options) = Response res \<Longrightarrow>
   statusCode res = Some sc \<Longrightarrow> redirectTarget sc (location res) (redirectsLeft options) = Some l \<Longrightarrow>
   httpsGet env url options w =
     httpsGet env l (options\<lparr>maxRedirects := Some (redirectsLeft options - 1)\<rparr>)
       (emit (EvRequest url (requestHeaders options)) w)"
  by (subst httpsGet.simps) simp

lemma httpsGet_final:
  "validURL env url \<Longrightarrow> server env url (requestHeaders options) = Response res \<Longrightarrow>
   statusCode res = Some sc \<Longrightarrow> redirectTarget sc (location res) (redirectsLeft options) = None \<Longrightarrow>
   httpsGet env url options w =
     (if sc < 200 \<or> sc \<ge> 300 then Inl (BadStatus url sc) else Inr res,
      emit (EvRequest url (requestHeaders options)) w)"
  by (subst httpsGet.simps) simp

text \<open>An induction rule for properties of the result of \<open>httpsGet\<close>.\<close>

lemma httpsGet_result_induct [consumes 0, case_names invalid transport nostatus final redirect]:
  assumes "\<And>url options w. \<not> validURL env url \<Longrightarrow> P url options w (Inl (InvalidURL url), w)"
    and "\<And>url options w. validURL env url \<Longrightarrow> server env url (requestHeaders options) = TransportError \<Longrightarrow>
          P url options w (Inl TransportFailure, emit (EvRequest url (requestHeaders options)) w)"
    and "\<And>url options w res. validURL env url \<Longrightarrow> server env url (requestHeaders options) = Response res \<Longrightarrow>
          statusCode res = None \<Longrightarrow>
          P url options w (Inl (NoStatusCode url), emit (EvRequest url (requestHeaders options)) w)"
    and "\<And>url options w res sc. validURL env url \<Longrightarrow> server env url (requestHeaders options) = Response res \<Longrightarrow>
          statusCode res = Some sc \<Longrightarrow> redirectTarget sc (location res) (redirectsLeft options) = None \<Longrightarrow>
          P url options w (if sc < 200 \<or> sc \<ge> 300 then Inl (BadStatus url sc) else Inr res,
                           emit (EvRequest url (requestHeaders options)) w)"
    and "\<And>url options w res sc l. validURL env url \<Longrightarrow> server env url (requestHeaders options) = Response res \<Longrightarrow>
          statusCode res = Some sc \<Longrightarrow> redirectTarget sc (location res) (redirectsLeft options) = Some l \<Longrightarrow>
          P l (options\<lparr>maxRedirects := Some (redirectsLeft options - 1)\<rparr>)
              (emit (EvRequest url (requestHeaders options)) w)
              (httpsGet env l (options\<lparr>maxRedirects := Some (redirectsLeft options - 1)\<rparr>)
                 (emit (EvRequest url (requestHeaders options)) w)) \<Longrightarrow>
          P url options w
              (httpsGet env l (options\<lparr>maxRedirects := Some (redirectsLeft options - 1)\<rparr>)
                 (emit (EvRequest url (requestHeaders options)) w))"
  shows "P url options w (httpsGet env url options w)"
proof -
  have "e = env \<Longrightarrow> P url options w (httpsGet e url options w)" for e
  proof (induction e url options w rule: httpsGet.induct)
    case (1 e url options w)
    have e: "e = env" by fact
    show ?case
    proof (cases "validURL env url")
      case False
      then show ?thesis using assms(1) e by (simp add: httpsGet_invalid)
    next
      case valid: True
      show ?thesis
      proof (cases "server env url (requestHeaders options)")
        case TransportError
        then show ?thesis using assms(2) valid e by (simp add: httpsGet_transport)
      next
        case (Response res)
        show ?thesis
        proof (cases "statusCode res")
          case None
          then show ?thesis using assms(3) valid Response e by (simp add: httpsGet_nostatus)
        next
          case (Some sc)
          show ?thesis
          proof (cases "redirectTarget sc (location res) (redirectsLeft options)")
            case None
            have "httpsGet env url options w =
                (if sc < 200 \<or> sc \<ge> 300 then Inl (BadStatus url sc) else Inr res,
                 emit (EvRequest url (requestHeaders options)) w)"
              using valid Response Some None by (rule httpsGet_final)
            then show ?thesis using assms(4) [OF valid Response Some None, of w] e by simp
          next
            case target: (Some l)
            have ih: "P l (options\<lparr>maxRedirects := Some (redirectsLeft options - 1)\<rparr>)
                        (emit (EvRequest url (requestHeaders options)) w)
                        (httpsGet env l (options\<lparr>maxRedirects := Some (redirectsLeft options - 1)\<rparr>)
                           (emit (EvRequest url (requestHeaders options)) w))"
              using "1.IH" [of res sc l] valid Response Some target e by simp
            have "httpsGet env url options w =
                httpsGet env l (options\<lparr>maxRedirects := Some (redirectsLeft options - 1)\<rparr>)
                  (emit (EvRequest url (requestHeaders options)) w)"
              using valid Response Some target by (rule httpsGet_redirect)
            then show ?thesis using assms(5) [OF valid Response Some target ih] e by simp
          qed
        qed
      qed
    qed
  qed
  then show ?thesis by simp
qed

lemma added_self [simp]: "added w w = []"
  by (simp add: added_def)

lemma added_append: "trace w' = trace w @ evs \<Longrightarrow> added w w' = evs"
  by (simp add: added_def)

lemma added_emit [simp]: "added w (emit e w) = [e]"
  by (simp add: added_def emit_def)

lemma httpsGet_frame:
  "fs (snd (httpsGet env url options w)) = fs w \<and>
   locks (snd (httpsGet env url options w)) = locks w \<and>
   now (snd (httpsGet env url options w)) = now w"
  by (induction url options w rule: httpsGet_result_induct [where env = env]) (simp_all add: emit_def)

lemma redirectsLeft_update [simp]:
  "redirectsLeft (options\<lparr>maxRedirects := Some m\<rparr>) = m"
  by (simp add: redirectsLeft_def)

lemma requestHeaders_update [simp]:
  "requestHeaders (options\<lparr>maxRedirects := m\<rparr>) = requestHeaders options"
  by (simp add: requestHeaders_def)

text \<open>Every event of a fetch is a request, and all of them carry the same headers.\<close>

lemma httpsGet_trace:
  "\<exists>evs. trace (snd (httpsGet env url options w)) = trace w @ evs \<and>
         (\<forall>e \<in> set evs. \<exists>u. e = EvRequest u (requestHeaders options))"
proof (induction url options w rule: httpsGet_result_induct [where env = env])
  case (redirect url options w res sc l)
  then obtain evs where
    "trace (snd (httpsGet env l (options\<lparr>maxRedirects := Some (redirectsLeft options - 1)\<rparr>)
        (emit (EvRequest url (requestHeaders options)) w))) =
       trace w @ EvRequest url (requestHeaders options) # evs"
    and "\<forall>e \<in> set evs. \<exists>u. e = EvRequest u (requestHeaders options)"
    by (auto simp: emit_def)
  then show ?case
    by (intro exI [of _ "EvRequest url (requestHeaders options) # evs"]) simp
qed (simp_all add: emit_def)

lemma httpsGet_added:
  "trace (snd (httpsGet env url options w)) = trace w @ added w (snd (httpsGet env url options w))"
  using httpsGet_trace [of env url options w] by (auto simp: added_def)

lemma httpsGet_added_requests:
  "e \<in> set (added w (snd (httpsGet env url options w))) \<Longrightarrow> \<exists>u. e = EvRequest u (requestHeaders options)"
  using httpsGet_trace [of env url options w] by (auto simp: added_def)

lemma added_step:
  "trace w' = trace (emit e w) @ evs \<Longrightarrow> added w w' = e # added (emit e w) w'"
  by (simp add: added_def emit_def)

lemma httpsGet_added_redirect:
  "added w (snd (httpsGet env l options' (emit e w))) = e # added (emit e w) (snd (httpsGet env l options' (emit e w)))"
  using httpsGet_added [of env l options' "emit e w"] added_step by blast

lemma httpsGet_count:
  "length (added w (snd (httpsGet env url options w))) \<le> nat (redirectsLeft options) + 1"
proof (induction url options w rule: httpsGet_result_induct [where env = env])
  case (redirect url options w res sc l)
  have "redirectsLeft options > 0"
    using redirect(4) by (auto simp: redirectTarget_def split: option.splits if_splits)
  with redirect(5) show ?case
    by (simp add: httpsGet_added_redirect)
qed simp_all

lemma redirectTarget_Some:
  "redirectTarget sc loc m = Some l \<Longrightarrow> 300 \<le> sc \<and> sc < 400 \<and> loc = Some l \<and> l \<noteq> [] \<and> m > 0"
  by (auto simp: redirectTarget_def split: option.splits if_splits)

lemma httpsGet_success_iff:
  "(fst (httpsGet env url options w) = Inr res) =
     (added w (snd (httpsGet env url options w)) \<noteq> [] \<and>
      answered2xx env (last (added w (snd (httpsGet env url options w)))) res)"
proof (induction url options w rule: httpsGet_result_induct [where env = env])
  case (invalid url options w)
  then show ?case by simp
next
  case (transport url options w)
  then show ?case by (simp add: answered2xx_def)
next
  case (nostatus url options w res')
  then show ?case by (auto simp: answered2xx_def)
next
  case (final url options w res' sc)
  then show ?case by (auto simp: answered2xx_def)
next
  case (redirect url options w res' sc l)
  let ?w1 = "emit (EvRequest url (requestHeaders options)) w"
  let ?r = "httpsGet env l (options\<lparr>maxRedirects := Some (redirectsLeft options - 1)\<rparr>) ?w1"
  have sc: "300 \<le> sc" using redirect(4) by (auto dest: redirectTarget_Some)
  have no: "\<not> answered2xx env (EvRequest url (requestHeaders options)) res"
    using redirect(2,3) sc by (auto simp: answered2xx_def)
  show ?case
  proof (cases "added ?w1 (snd ?r) = []")
    case True
    then show ?thesis using redirect(5) no by (simp add: httpsGet_added_redirect)
  next
    case False
    then show ?thesis using redirect(5) by (simp add: httpsGet_added_redirect)
  qed
qed


lemma map_of_fold_update:
  "map_of (fold (\<lambda>(k, v). AList.update k v) b a) = map_of a ++ map_of (rev b)"
proof (induction b arbitrary: a)
  case Nil
  then show ?case by simp
next
  case (Cons x b)
  obtain k v where x: "x = (k, v)" by (cases x)
  show ?case
    by (simp add: x Cons.IH update_conv' map_add_upd_left fun_eq_iff map_add_def split: option.splits)
qed

lemma distinct_fold_update:
  "distinct (map fst a) \<Longrightarrow> distinct (map fst (fold (\<lambda>(k, v). AList.update k v) b a))"
  by (induction b arbitrary: a) (auto simp: distinct_update)

lemma map_of_rev_distinct:
  assumes "distinct (map fst xs)"
  shows "map_of (rev xs) k = map_of xs k"
proof (cases "map_of xs k")
  case None
  then have "k \<notin> fst ` set (rev xs)" by (simp add: map_of_eq_None_iff)
  then have "map_of (rev xs) k = None" by (simp add: map_of_eq_None_iff)
  with None show ?thesis by simp
next
  case (Some v)
  have d: "distinct (map fst (rev xs))" using assms by (simp add: rev_map [symmetric])
  from Some have "(k, v) \<in> set (rev xs)" by (auto dest: map_of_SomeD)
  with d have "map_of (rev xs) k = Some v" by (simp only: map_of_eq_Some_iff)
  with Some show ?thesis by simp
qed

lemma map_of_spread_fresh:
  assumes "k \<notin> fst ` set b"
  shows "map_of (spread a b) k = map_of a k"
proof -
  from assms have "k \<notin> fst ` set (rev b)" by simp
  then have "map_of (rev b) k = None" by (simp add: map_of_eq_None_iff)
  then show ?thesis by (simp add: spread_def map_of_fold_update map_add_def)
qed

lemma map_of_spread_keeps:
  assumes "distinct (map fst b)" and "map_of b k = Some v"
  shows "map_of (spread a b) k = Some v"
  using assms by (simp add: spread_def map_of_fold_update map_add_def map_of_rev_distinct)

lemma range_header_sent:
  assumes "''Range'' \<notin> fst ` set (case headers options of None \<Rightarrow> [] | Some h \<Rightarrow> h)"
  shows "map_of (requestHeaders (options\<lparr>headers :=
            Some (spread [(''Range'', v)] (case headers options of None \<Rightarrow> [] | Some h \<Rightarrow> h))\<rparr>)) ''Range''
         = Some v"
proof -
  let ?h = "case headers options of None \<Rightarrow> [] | Some h \<Rightarrow> h"
  have d: "distinct (map fst (spread [(''Range'', v)] ?h))"
    unfolding spread_def by (rule distinct_fold_update) simp
  have "map_of (spread [(''Range'', v)] ?h) ''Range'' = Some v"
    using assms by (simp add: map_of_spread_fresh)
  with d show ?thesis
    by (simp add: requestHeaders_def map_of_spread_keeps)
qed

lemma httpsGetWithRange_requests:
  assumes "''Range'' \<notin> fst ` set (case headers options of None \<Rightarrow> [] | Some h \<Rightarrow> h)"
    and "e \<in> set (added w (snd (httpsGetWithRange env url n options w)))"
  shows "\<exists>u hs. e = EvRequest u hs \<and> map_of hs ''Range'' = Some (''bytes='' @ decimal n @ ''-'')"
  using assms(2) range_header_sent [OF assms(1)]
  by (auto simp: httpsGetWithRange_def Let_def dest!: httpsGet_added_requests)

lemma httpsGetWithRange_accepts:
  assumes "validURL env url"
    and "server env url (requestHeaders (options\<lparr>headers :=
            Some (spread [(''Range'', ''bytes='' @ decimal n @ ''-'')]
                         (case headers options of None \<Rightarrow> [] | Some h \<Rightarrow> h))\<rparr>)) = Response res"
    and "statusCode res = Some 200 \<or> statusCode res = Some 206"
  shows "fst (httpsGetWithRange env url n options w) = Inr res"
proof -
  obtain sc where sc: "statusCode res = Some sc" "sc = 200 \<or> sc = 206"
    using assms(3) by auto
  have "redirectTarget sc (location res) m = None" for m
    using sc(2) by (auto simp: redirectTarget_def split: option.splits)
  from httpsGet_final [OF assms(1) assms(2) sc(1) this] sc(2)
  show ?thesis by (auto simp: httpsGetWithRange_def Let_def)
qed

lemma noOptions_redirects: "redirectsLeft noOptions = 5"
  by (simp add: redirectsLeft_def noOptions_def)


section \<open>Properties of the resumable downloader\<close>

lemma httpsGet_outcome_world:
  "fst (httpsGet env url options w) = fst (httpsGet env url options w0)"
proof (induction url options w arbitrary: w0 rule: httpsGet_result_induct [where env = env])
  case (invalid url options w)
  then show ?case by (simp add: httpsGet_invalid)
next
  case (transport url options w)
  then show ?case by (simp add: httpsGet_transport)
next
  case (nostatus url options w res)
  then show ?case by (simp add: httpsGet_nostatus)
next
  case (final url options w res sc)
  then show ?case by (simp add: httpsGet_final)
next
  case (redirect url options w res sc l)
  show ?case
    using redirect(5) [of "emit (EvRequest url (requestHeaders options)) w0"]
    by (simp add: httpsGet_redirect [OF redirect(1-4), of w0])
qed

lemma digestLoop_eq:
  "digestLoop fd w position hashed = hashed @ drop position (contents fd w)"
proof (induction fd w position hashed rule: digestLoop.induct)
  case (1 fd w position hashed)
  let ?buf = "readSync fd (64 * 1024) position w"
  show ?case
  proof (cases "length ?buf > 0")
    case True
    have "?buf @ drop (position + length ?buf) (contents fd w) = drop position (contents fd w)"
      unfolding readSync_def
      by (metis add.commute append_take_drop_id drop_drop length_take min.commute take_all_iff
          append.right_neutral drop_all linorder_le_cases min_def)
    with True "1.IH" show ?thesis
      by (subst digestLoop.simps) simp
  next
    case False
    then have "drop position (contents fd w) = []"
      by (simp add: readSync_def)
    with False show ?thesis
      by (subst digestLoop.simps) simp
  qed
qed

lemma checkIntegrity_eq:
  "checkIntegrity fd hash expectedDigestHex w = (hash (contents fd w) = expectedDigestHex)"
  by (simp add: checkIntegrity_def digestLoop_eq)

lemma pwrite_end [simp]: "pwrite old (length old) chunk = old @ chunk"
  by (simp add: pwrite_def)

text \<open>What the stream consumer has written: the chunks that arrive before the lock is compromised.\<close>

lemma saveToDisk_aborted_world:
  "snd (saveToDisk es fin fd off True rej w) = w"
proof (induction es arbitrary: rej)
  case Nil
  then show ?case by (simp split: option.splits sfinish.splits)
next
  case (Cons e es)
  then show ?case by (cases e) simp_all
qed

lemma saveToDisk_world:
  assumes "fs w fd = Some (File c)"
  shows "fs (snd (saveToDisk es fin fd (length c) False rej w)) =
           (fs w)(fd \<mapsto> File (c @ concat (chunks (takeWhile (\<lambda>e. e \<noteq> Compromised) es))))
         \<and> locks (snd (saveToDisk es fin fd (length c) False rej w)) = locks w
         \<and> now (snd (saveToDisk es fin fd (length c) False rej w)) = now w
         \<and> (\<exists>evs. trace (snd (saveToDisk es fin fd (length c) False rej w)) = trace w @ evs
                \<and> (\<forall>e \<in> set evs. \<exists>p n. e = EvWrite fd p n))"
  using assms
proof (induction es arbitrary: c rej w)
  case Nil
  have "(fs w)(fd \<mapsto> File c) = fs w" using Nil by (simp add: fun_upd_idem)
  then show ?case by (simp split: option.splits sfinish.splits)
next
  case (Cons e es)
  show ?case
  proof (cases e)
    case Compromised
    have "(fs w)(fd \<mapsto> File c) = fs w" using Cons.prems by (simp add: fun_upd_idem)
    with Compromised show ?thesis by (simp add: saveToDisk_aborted_world)
  next
    case (Data chunk)
    let ?w1 = "writeSync fd chunk (length c) w"
    have w1: "?w1 = emit (EvWrite fd (length c) (length chunk)) (w\<lparr>fs := (fs w)(fd \<mapsto> File (c @ chunk))\<rparr>)"
      using Cons.prems by (simp add: writeSync_def)
    have f1: "fs ?w1 fd = Some (File (c @ chunk))"
      by (simp add: w1 emit_def)
    from Cons.IH [OF f1, of rej] obtain evs where
      a: "fs (snd (saveToDisk es fin fd (length (c @ chunk)) False rej ?w1)) =
            (fs ?w1)(fd \<mapsto> File ((c @ chunk) @ concat (chunks (takeWhile (\<lambda>e. e \<noteq> Compromised) es))))"
      and b: "locks (snd (saveToDisk es fin fd (length (c @ chunk)) False rej ?w1)) = locks ?w1"
      and c: "now (snd (saveToDisk es fin fd (length (c @ chunk)) False rej ?w1)) = now ?w1"
      and d: "trace (snd (saveToDisk es fin fd (length (c @ chunk)) False rej ?w1)) = trace ?w1 @ evs"
      and e: "\<forall>e \<in> set evs. \<exists>p n. e = EvWrite fd p n"
      by blast
    have step: "saveToDisk (e # es) fin fd (length c) False rej w =
                saveToDisk es fin fd (length (c @ chunk)) False rej ?w1"
      by (simp add: Data)
    have tw: "takeWhile (\<lambda>e. e \<noteq> Compromised) (e # es) = Data chunk # takeWhile (\<lambda>e. e \<noteq> Compromised) es"
      by (simp add: Data)
    have "trace (snd (saveToDisk es fin fd (length (c @ chunk)) False rej ?w1)) =
            trace w @ (EvWrite fd (length c) (length chunk) # evs)"
      using d by (simp add: w1 emit_def)
    moreover have "\<forall>e \<in> set (EvWrite fd (length c) (length chunk) # evs). \<exists>p n. e = EvWrite fd p n"
      using e by simp
    ultimately have "\<exists>evs. trace (snd (saveToDisk es fin fd (length (c @ chunk)) False rej ?w1)) = trace w @ evs
                \<and> (\<forall>e \<in> set evs. \<exists>p n. e = EvWrite fd p n)"
      by blast
    moreover have "fs (snd (saveToDisk es fin fd (length (c @ chunk)) False rej ?w1)) =
        (fs w)(fd \<mapsto> File (c @ concat (chunks (takeWhile (\<lambda>e. e \<noteq> Compromised) (e # es)))))"
      unfolding a tw by (simp add: w1 emit_def)
    moreover have "locks (snd (saveToDisk es fin fd (length (c @ chunk)) False rej ?w1)) = locks w"
      unfolding b by (simp add: w1 emit_def)
    moreover have "now (snd (saveToDisk es fin fd (length (c @ chunk)) False rej ?w1)) = now w"
      unfolding c by (simp add: w1 emit_def)
    ultimately show ?thesis
      unfolding step by blast
  qed
qed

lemma saveToDisk_completes:
  assumes "Compromised \<notin> set es"
  shows "fst (saveToDisk es fin fd off False None w) =
           (case fin of End \<Rightarrow> Inr () | StreamError \<Rightarrow> Inl StreamFailure)"
  using assms
proof (induction es arbitrary: off w)
  case Nil
  then show ?case by (simp split: sfinish.splits)
next
  case (Cons e es)
  then show ?case by (cases e) simp_all
qed

lemma saveToDisk_aborts:
  assumes "ab \<or> Compromised \<in> set es" and "rej = None \<or> rej = Some Aborted"
  shows "fst (saveToDisk es fin fd off ab rej w) = Inl Aborted \<or>
         (fin = StreamError \<and> fst (saveToDisk es fin fd off ab rej w) = Inl StreamFailure)"
  using assms
proof (induction es arbitrary: off ab rej w)
  case Nil
  then show ?case by (auto split: sfinish.splits)
next
  case (Cons e es)
  show ?case
  proof (cases e)
    case Compromised
    with Cons.IH [of True rej] Cons.prems show ?thesis by simp
  next
    case (Data chunk)
    show ?thesis
    proof (cases ab)
      case True
      have "(case rej of None \<Rightarrow> Some Aborted | Some e \<Rightarrow> Some e) = Some Aborted"
        using Cons.prems(2) by auto
      with True Data Cons.IH [of True "Some Aborted" off w] show ?thesis by simp
    next
      case False
      with Data Cons.prems Cons.IH [of False rej] show ?thesis by simp
    qed
  qed
qed


lemma httpsGetWithRange_frame:
  "fs (snd (httpsGetWithRange env url n options w)) = fs w"
  "locks (snd (httpsGetWithRange env url n options w)) = locks w"
  "now (snd (httpsGetWithRange env url n options w)) = now w"
  by (simp_all add: httpsGetWithRange_def Let_def httpsGet_frame)

lemma httpsGetWithRange_trace:
  "\<exists>evs. trace (snd (httpsGetWithRange env url n options w)) = trace w @ evs \<and> (\<forall>e \<in> set evs. isRequest e)"
proof -
  obtain evs where
    "trace (snd (httpsGetWithRange env url n options w)) = trace w @ evs"
    "\<forall>e \<in> set evs. \<exists>u. e = EvRequest u (requestHeaders (options\<lparr>headers :=
        Some (spread [(''Range'', ''bytes='' @ decimal n @ ''-'')]
               (case headers options of None \<Rightarrow> [] | Some h \<Rightarrow> h))\<rparr>))"
    unfolding httpsGetWithRange_def Let_def using httpsGet_trace by blast
  then show ?thesis by (intro exI [of _ evs]) auto
qed

lemma httpsGetWithRange_plain_trace:
  "\<exists>evs. trace (snd (httpsGetWithRange env url n noOptions w)) = trace w @ evs
         \<and> (\<forall>e \<in> set evs. rangeRequest n e)"
proof -
  have "requestHeaders (noOptions\<lparr>headers :=
        Some (spread [(''Range'', ''bytes='' @ decimal n @ ''-'')]
               (case headers noOptions of None \<Rightarrow> [] | Some h \<Rightarrow> h))\<rparr>)
        = [(''Range'', ''bytes='' @ decimal n @ ''-'')]"
    by (simp add: requestHeaders_def noOptions_def spread_def)
  then obtain evs where
    "trace (snd (httpsGetWithRange env url n noOptions w)) = trace w @ evs"
    "\<forall>e \<in> set evs. \<exists>u. e = EvRequest u [(''Range'', ''bytes='' @ decimal n @ ''-'')]"
    unfolding httpsGetWithRange_def Let_def
    using httpsGet_trace [of env url "noOptions\<lparr>headers :=
        Some (spread [(''Range'', ''bytes='' @ decimal n @ ''-'')]
               (case headers noOptions of None \<Rightarrow> [] | Some h \<Rightarrow> h))\<rparr>" w]
    by auto
  then show ?thesis by (intro exI [of _ evs]) (auto simp: rangeRequest_def)
qed

lemma rangeRequest_simps [simp]:
  "rangeRequest n (EvRequest u h) = (h = [(''Range'', ''bytes='' @ decimal n @ ''-'')])"
  "\<not> rangeRequest n (EvLock p)" "\<not> rangeRequest n (EvRelease p)" "\<not> rangeRequest n (EvOpen p)"
  "\<not> rangeRequest n (EvWrite p a b)" "\<not> rangeRequest n (EvUnlink p)" "\<not> rangeRequest n (EvRename p q)"
  "\<not> rangeRequest n (EvMkdir p)" "\<not> rangeRequest n (EvRmTree p)" "\<not> rangeRequest n (EvSymlink p q)"
  "\<not> rangeRequest n (EvWriteFile p)"
  by (simp_all add: rangeRequest_def)

lemma httpsGetWithRange_outcome_world:
  "fst (httpsGetWithRange env url n options w) = fst (httpsGetWithRange env url n options w0)"
  unfolding httpsGetWithRange_def Let_def by (rule httpsGet_outcome_world)

lemma downloadWithResume_http_fails:
  "httpsGetWithRange env url n noOptions w = (Inl e, w1) \<Longrightarrow>
   downloadWithResume env url fd n ab hash hex p w = (Inl e, w1)"
  by (simp add: downloadWithResume_def)

lemma downloadWithResume_stream_fails:
  "httpsGetWithRange env url n noOptions w = (Inr res, w1) \<Longrightarrow>
   saveToDisk (body res) (finish res) fd n ab None w1 = (Inl e, w2) \<Longrightarrow>
   downloadWithResume env url fd n ab hash hex p w = (Inl e, w2)"
  by (simp add: downloadWithResume_def)

lemma downloadWithResume_mismatch:
  "httpsGetWithRange env url n noOptions w = (Inr res, w1) \<Longrightarrow>
   saveToDisk (body res) (finish res) fd n ab None w1 = (Inr u, w2) \<Longrightarrow>
   hash (contents fd w2) \<noteq> hex \<Longrightarrow> unlinkSync p w2 = (Inr u', w3) \<Longrightarrow>
   downloadWithResume env url fd n ab hash hex p w = (Inl IntegrityCheckFailed, w3)"
  by (simp add: downloadWithResume_def checkIntegrity_eq fsyncSync_def)

lemma downloadWithResume_match:
  "httpsGetWithRange env url n noOptions w = (Inr res, w1) \<Longrightarrow>
   saveToDisk (body res) (finish res) fd n ab None w1 = (Inr u, w2) \<Longrightarrow>
   hash (contents fd w2) = hex \<Longrightarrow>
   downloadWithResume env url fd n ab hash hex p w = (Inr res, w2)"
  by (simp add: downloadWithResume_def checkIntegrity_eq fsyncSync_def closeSync_def)

lemma unlinkSync_file:
  "fs w p = Some (File c) \<Longrightarrow> unlinkSync p w = (Inr (), emit (EvUnlink p) (w\<lparr>fs := (fs w)(p := None)\<rparr>))"
  by (simp add: unlinkSync_def)

text \<open>
  The download proper, started on an open pending file: it touches no other path, and
  it returns a response only with a pending file whose digest is the expected one.
\<close>

lemma downloadWithResume_frame:
  fixes env :: env and url :: string and hash :: "string \<Rightarrow> string" and hex :: string
  assumes "fs w fd = Some (File c)"
  defines "out \<equiv> downloadWithResume env url fd (length c) False hash hex fd w"
  shows "locks (snd out) = locks w"
    and "now (snd out) = now w"
    and "q \<noteq> fd \<Longrightarrow> fs (snd out) q = fs w q"
    and "\<exists>evs. trace (snd out) = trace w @ evs \<and>
           (\<forall>e \<in> set evs. rangeRequest (length c) e \<or> (\<exists>p n. e = EvWrite fd p n) \<or> e = EvUnlink fd)"
    and "fst out = Inr res \<Longrightarrow> \<exists>c'. fs (snd out) fd = Some (File c') \<and> hash c' = hex"
proof -
  define g where "g = httpsGetWithRange env url (length c) noOptions w"
  have g_fs: "fs (snd g) = fs w" and g_locks: "locks (snd g) = locks w" and g_now: "now (snd g) = now w"
    by (simp_all add: g_def httpsGetWithRange_frame)
  obtain reqs where g_trace: "trace (snd g) = trace w @ reqs" and reqs: "\<forall>e \<in> set reqs. rangeRequest (length c) e"
    using httpsGetWithRange_plain_trace [of env url "length c" w] by (auto simp: g_def)
  have all: "locks (snd out) = locks w \<and> now (snd out) = now w \<and> (q \<noteq> fd \<longrightarrow> fs (snd out) q = fs w q) \<and>
      (\<exists>evs. trace (snd out) = trace w @ evs \<and>
           (\<forall>e \<in> set evs. rangeRequest (length c) e \<or> (\<exists>p n. e = EvWrite fd p n) \<or> e = EvUnlink fd)) \<and>
      (fst out = Inr res \<longrightarrow> (\<exists>c'. fs (snd out) fd = Some (File c') \<and> hash c' = hex))"
  proof (cases "fst g")
    case (Inl e)
    then have "out = (Inl e, snd g)"
      unfolding out_def g_def by (intro downloadWithResume_http_fails prod_eqI) simp_all
    then show ?thesis
      using g_fs g_locks g_now g_trace reqs by auto
  next
    case (Inr r)
    then have g_eq: "httpsGetWithRange env url (length c) noOptions w = (Inr r, snd g)"
      unfolding g_def by (intro prod_eqI) simp_all
    define sv where "sv = saveToDisk (body r) (finish r) fd (length c) False None (snd g)"
    define c' where "c' = c @ concat (chunks (takeWhile (\<lambda>e. e \<noteq> Compromised) (body r)))"
    have gf: "fs (snd g) fd = Some (File c)" using assms(1) g_fs by simp
    from saveToDisk_world [OF gf, of "body r" "finish r" None]
    obtain ws where sv_fs: "fs (snd sv) = (fs (snd g))(fd \<mapsto> File c')"
      and sv_locks: "locks (snd sv) = locks (snd g)" and sv_now: "now (snd sv) = now (snd g)"
      and sv_trace: "trace (snd sv) = trace (snd g) @ ws"
      and ws: "\<forall>e \<in> set ws. \<exists>p n. e = EvWrite fd p n"
      unfolding sv_def c'_def by blast
    have cont: "contents fd (snd sv) = c'" by (simp add: contents_def sv_fs)
    show ?thesis
    proof (cases "fst sv")
      case (Inl e)
      then have "saveToDisk (body r) (finish r) fd (length c) False None (snd g) = (Inl e, snd sv)"
        unfolding sv_def by (intro prod_eqI) simp_all
      then have "out = (Inl e, snd sv)"
        unfolding out_def by (rule downloadWithResume_stream_fails [OF g_eq])
      moreover have "trace (snd sv) = trace w @ (reqs @ ws)"
        by (simp add: sv_trace g_trace)
      moreover have "\<forall>e \<in> set (reqs @ ws). rangeRequest (length c) e \<or> (\<exists>p n. e = EvWrite fd p n) \<or> e = EvUnlink fd"
        using reqs ws by auto
      ultimately show ?thesis
        using sv_fs sv_locks sv_now g_fs g_locks g_now by (simp only: fst_conv snd_conv) auto
    next
      case ok: (Inr u)
      then have sv_eq: "saveToDisk (body r) (finish r) fd (length c) False None (snd g) = (Inr u, snd sv)"
        unfolding sv_def by (intro prod_eqI) simp_all
      show ?thesis
      proof (cases "hash c' = hex")
        case True
        then have "out = (Inr r, snd sv)"
          unfolding out_def using cont by (intro downloadWithResume_match [OF g_eq sv_eq]) simp
        moreover have "trace (snd sv) = trace w @ (reqs @ ws)"
          by (simp add: sv_trace g_trace)
        moreover have "\<forall>e \<in> set (reqs @ ws). rangeRequest (length c) e \<or> (\<exists>p n. e = EvWrite fd p n) \<or> e = EvUnlink fd"
          using reqs ws by auto
        ultimately show ?thesis
          using sv_fs sv_locks sv_now g_fs g_locks g_now True by (simp only: fst_conv snd_conv) auto
      next
        case False
        have ul: "unlinkSync fd (snd sv) = (Inr (), emit (EvUnlink fd) ((snd sv)\<lparr>fs := (fs (snd sv))(fd := None)\<rparr>))"
          by (rule unlinkSync_file [of _ _ c']) (simp add: sv_fs)
        have "out = (Inl IntegrityCheckFailed, emit (EvUnlink fd) ((snd sv)\<lparr>fs := (fs (snd sv))(fd := None)\<rparr>))"
          unfolding out_def using cont False
          by (intro downloadWithResume_mismatch [OF g_eq sv_eq _ ul]) simp
        moreover have "trace (emit (EvUnlink fd) ((snd sv)\<lparr>fs := (fs (snd sv))(fd := None)\<rparr>)) =
            trace w @ (reqs @ ws @ [EvUnlink fd])"
          by (simp add: emit_def sv_trace g_trace)
        moreover have "\<forall>e \<in> set (reqs @ ws @ [EvUnlink fd]). rangeRequest (length c) e \<or> (\<exists>p n. e = EvWrite fd p n) \<or> e = EvUnlink fd"
          using reqs ws by auto
        ultimately show ?thesis
          using sv_fs sv_locks sv_now g_fs g_locks g_now by (simp only: fst_conv snd_conv) (auto simp: emit_def)
      qed
    qed
  qed
  from all show "locks (snd out) = locks w" by blast
  from all show "now (snd out) = now w" by blast
  from all show "q \<noteq> fd \<Longrightarrow> fs (snd out) q = fs w q" by blast
  from all show "\<exists>evs. trace (snd out) = trace w @ evs \<and>
           (\<forall>e \<in> set evs. rangeRequest (length c) e \<or> (\<exists>p n. e = EvWrite fd p n) \<or> e = EvUnlink fd)" by blast
  from all show "fst out = Inr res \<Longrightarrow> \<exists>c'. fs (snd out) fd = Some (File c') \<and> hash c' = hex" by blast
qed


text \<open>A path that is no symbolic link is opened itself; a link is followed.\<close>

lemma follow_plain:
  "(\<And>t. f p \<noteq> Some (Symlink t)) \<Longrightarrow> follow k f p = Inr p"
  by (cases k) (auto split: option.splits node.splits)

lemma follow_cases:
  "f p = None \<Longrightarrow> follow k f p = Inr p"
  "f p = Some (File c) \<Longrightarrow> follow k f p = Inr p"
  "f p = Some Dir \<Longrightarrow> follow k f p = Inr p"
  by (simp_all add: follow_plain)

lemma openSync_follows_link:
  assumes "fs w p = Some (Symlink t)" and "fs w t = None \<or> (\<exists>c. fs w t = Some (File c))"
  shows "openSync p W_plus w = (Inr t, emit (EvOpen p) (w\<lparr>fs := (fs w)(t \<mapsto> File [])\<rparr>))"
proof -
  have "follow 39 (fs w) t = Inr t"
    by (rule follow_plain) (use assms(2) in auto)
  then have "follow 40 (fs w) p = Inr t"
    using assms(1) by (simp add: eval_nat_numeral)
  then show ?thesis
    using assms(2) by (auto simp: openSync_def)
qed

lemma openSync_W_plus_ok:
  assumes "\<And>t. fs w p \<noteq> Some (Symlink t)" and "openSync p W_plus w = (Inr fd, w')"
  shows "fd = p \<and> w' = emit (EvOpen p) (w\<lparr>fs := (fs w)(p \<mapsto> File [])\<rparr>)"
proof -
  have "follow 40 (fs w) p = Inr p"
    by (rule follow_plain) (rule assms(1))
  then show ?thesis
    using assms by (auto simp: openSync_def split: option.splits node.splits)
qed

lemma openSync_error:
  "openSync p flag w = (Inl e, w') \<Longrightarrow> w' = w"
  by (auto simp: openSync_def split: option.splits node.splits sum.splits)

lemma eager_after_open:
  assumes "createHash env algo = Some hash"
    and "lock (dest @ ''.lock'') w = (Inr u, w1)"
    and "openSync (dest @ ''.dl'') W_plus w1 = (Inr fd, w2)"
    and "downloadWithResume env url fd (getSizeOnDisk fd w2) False hash hex (dest @ ''.dl'') w2 = (r, w3)"
  shows "eagerAcquireLockAndDownload env url dest algo hex w =
           (case r of
              Inl e \<Rightarrow> (Inl e, release (dest @ ''.lock'') w3)
            | Inr res \<Rightarrow> renameSync (dest @ ''.dl'') dest (release (dest @ ''.lock'') w3))"
  using assms by (simp add: eagerAcquireLockAndDownload_def closeSync_def split: sum.splits)

lemma pending_not_dest [simp]: "dest @ ''.dl'' \<noteq> dest" "dest \<noteq> dest @ ''.dl''"
  by simp_all

text \<open>
  With a pending path that is no symbolic link, the destination is written by the rename
  alone, and the rename moves a verified file.
\<close>

lemma eager_publishes_verified:
  fixes env :: env and url dest algo hex :: string and w :: world
  assumes nolink: "\<And>t. fs w (dest @ ''.dl'') \<noteq> Some (Symlink t)"
  defines "out \<equiv> eagerAcquireLockAndDownload env url dest algo hex w"
  shows "(EvRename (dest @ ''.dl'') dest \<in> set (added w (snd out))) = (fst out = Inr ())"
    and "fst out = Inr () \<longrightarrow>
           (\<exists>hash c. createHash env algo = Some hash \<and> fs (snd out) dest = Some (File c) \<and> hash c = hex)"
    and "fst out \<noteq> Inr () \<longrightarrow> fs (snd out) dest = fs w dest"
    and "(\<forall>e \<in> set (added w (snd out)).
           e = EvLock (dest @ ''.lock'') \<or> e = EvOpen (dest @ ''.dl'') \<or> rangeRequest 0 e
           \<or> (\<exists>p n. e = EvWrite (dest @ ''.dl'') p n) \<or> e = EvUnlink (dest @ ''.dl'')
           \<or> e = EvRelease (dest @ ''.lock'') \<or> e = EvRename (dest @ ''.dl'') dest)"
proof -
  let ?P = "dest @ ''.dl''" and ?L = "dest @ ''.lock''"
  let ?goal = "((EvRename ?P dest \<in> set (added w (snd out))) = (fst out = Inr ())) \<and>
      (fst out = Inr () \<longrightarrow>
           (\<exists>hash c. createHash env algo = Some hash \<and> fs (snd out) dest = Some (File c) \<and> hash c = hex)) \<and>
      (fst out \<noteq> Inr () \<longrightarrow> fs (snd out) dest = fs w dest) \<and>
      (\<forall>e \<in> set (added w (snd out)).
           e = EvLock (dest @ ''.lock'') \<or> e = EvOpen (dest @ ''.dl'') \<or> rangeRequest 0 e
           \<or> (\<exists>p n. e = EvWrite (dest @ ''.dl'') p n) \<or> e = EvUnlink (dest @ ''.dl'')
           \<or> e = EvRelease (dest @ ''.lock'') \<or> e = EvRename (dest @ ''.dl'') dest)"
  have ?goal
  proof (cases "createHash env algo")
    case None
    then have "out = (Inl (UnknownDigestAlgorithm algo), w)"
      by (simp add: out_def eagerAcquireLockAndDownload_def)
    then show ?thesis by simp
  next
    case (Some hash)
    show ?thesis
    proof (cases "?L \<in> locks w")
      case True
      then have "out = (Inl (LockFailure ?L), w)"
        using Some by (simp add: out_def eagerAcquireLockAndDownload_def lock_def)
      then show ?thesis by simp
    next
      case False
      define w1 where "w1 = emit (EvLock ?L) (w\<lparr>locks := insert ?L (locks w)\<rparr>)"
      have lk: "lock ?L w = (Inr (), w1)"
        using False by (simp add: lock_def w1_def)
      have w1_fs: "fs w1 = fs w" and w1_tr: "trace w1 = trace w @ [EvLock ?L]"
        by (simp_all add: w1_def emit_def)
      obtain ro w2 where op: "openSync ?P W_plus w1 = (ro, w2)"
        by (cases "openSync ?P W_plus w1")
      show ?thesis
      proof (cases ro)
        case (Inl e)
        with op have "w2 = w1" by (auto dest: openSync_error)
        then have "out = (Inl e, w1)"
          using Some lk op Inl by (simp add: out_def eagerAcquireLockAndDownload_def)
        then show ?thesis
          using w1_fs added_append [OF w1_tr] by simp
      next
        case (Inr fd)
        have nl1: "fs w1 ?P \<noteq> Some (Symlink t)" for t
          using nolink by (simp add: w1_fs)
        from op Inr have "openSync ?P W_plus w1 = (Inr fd, w2)" by simp
        from openSync_W_plus_ok [OF nl1 this]
        have fd: "fd = ?P" and w2: "w2 = emit (EvOpen ?P) (w1\<lparr>fs := (fs w1)(?P \<mapsto> File [])\<rparr>)"
          by simp_all
        have w2_P: "fs w2 ?P = Some (File [])" by (simp add: w2 emit_def)
        have w2_dest: "fs w2 dest = fs w dest" by (simp add: w2 emit_def w1_fs)
        have w2_tr: "trace w2 = trace w @ [EvLock ?L, EvOpen ?P]"
          by (simp add: w2 emit_def w1_tr)
        have size0: "getSizeOnDisk ?P w2 = length ([] :: string)"
          by (simp add: getSizeOnDisk_def w2_P)
        define d where "d = downloadWithResume env url ?P (length ([] :: string)) False hash hex ?P w2"
        have d_dest: "fs (snd d) dest = fs w dest"
          using downloadWithResume_frame(3) [OF w2_P, of dest env url hash hex] w2_dest
          by (simp add: d_def)
        obtain evs where d_tr: "trace (snd d) = trace w2 @ evs"
          and evs: "\<forall>e \<in> set evs. rangeRequest 0 e \<or> (\<exists>p n. e = EvWrite ?P p n) \<or> e = EvUnlink ?P"
          using downloadWithResume_frame(4) [OF w2_P, of env url hash hex] unfolding d_def by auto
        have evs_rq: "\<forall>e \<in> set evs. rangeRequest 0 e \<or> (\<exists>p n. e = EvWrite ?P p n) \<or> e = EvUnlink ?P"
          by (rule evs)
        have evs_no: "EvRename ?P dest \<notin> set evs"
          using evs by fastforce
        have eq: "out = (case fst d of
              Inl e \<Rightarrow> (Inl e, release ?L (snd d))
            | Inr res \<Rightarrow> renameSync ?P dest (release ?L (snd d)))"
        proof -
          have op': "openSync ?P W_plus w1 = (Inr ?P, w2)" using op Inr fd by simp
          have dd: "downloadWithResume env url ?P (getSizeOnDisk ?P w2) False hash hex ?P w2 = (fst d, snd d)"
            by (simp add: size0 d_def)
          show ?thesis unfolding out_def by (rule eager_after_open [OF Some lk op' dd])
        qed
        define w4 where "w4 = release ?L (snd d)"
        have w4_fs: "fs w4 = fs (snd d)" and w4_tr: "trace w4 = trace w @ ([EvLock ?L, EvOpen ?P] @ evs @ [EvRelease ?L])"
          by (simp_all add: w4_def release_def emit_def d_tr w2_tr)
        have w4_no: "EvRename ?P dest \<notin> set ([EvLock ?L, EvOpen ?P] @ evs @ [EvRelease ?L])"
          using evs_no by simp
        have w4_rq: "\<forall>e \<in> set ([EvLock ?L, EvOpen ?P] @ evs @ [EvRelease ?L]).
            e = EvLock ?L \<or> e = EvOpen ?P \<or> rangeRequest 0 e \<or> (\<exists>p n. e = EvWrite ?P p n)
            \<or> e = EvUnlink ?P \<or> e = EvRelease ?L \<or> e = EvRename ?P dest"
          using evs_rq by auto
        show ?thesis
        proof (cases "fst d")
          case (Inl e)
          then have "out = (Inl e, w4)" by (simp add: eq w4_def)
          then show ?thesis
            using added_append [OF w4_tr] w4_no w4_rq w4_fs d_dest by simp
        next
          case ok: (Inr res)
          then obtain c where c: "fs (snd d) ?P = Some (File c)" "hash c = hex"
            using downloadWithResume_frame(5) [OF w2_P, of env url hash hex res] unfolding d_def by blast
          have o: "out = renameSync ?P dest w4" using ok by (simp add: eq w4_def)
          show ?thesis
          proof (cases "fs w4 dest = Some Dir")
            case True
            then have "out = (Inl (FsError ''EISDIR'' dest), w4)"
              using c by (simp add: o renameSync_def w4_fs)
            then show ?thesis
              using added_append [OF w4_tr] w4_no w4_rq w4_fs d_dest by simp
          next
            case False
            define w5 where "w5 = emit (EvRename ?P dest) (w4\<lparr>fs := (fs w4)(?P := None, dest \<mapsto> File c)\<rparr>)"
            have "out = (Inr (), w5)"
              using c False by (simp add: o renameSync_def w4_fs w5_def)
            moreover have "trace w5 = trace w @ ([EvLock ?L, EvOpen ?P] @ evs @ [EvRelease ?L] @ [EvRename ?P dest])"
              by (simp add: w5_def emit_def w4_tr)
            moreover have "fs w5 dest = Some (File c)"
              by (simp add: w5_def emit_def)
            ultimately show ?thesis
              using Some c(2) w4_rq by (simp add: added_append)
          qed
        qed
      qed
    qed
  qed
  then show "(EvRename (dest @ ''.dl'') dest \<in> set (added w (snd out))) = (fst out = Inr ())"
    and "fst out = Inr () \<longrightarrow>
           (\<exists>hash c. createHash env algo = Some hash \<and> fs (snd out) dest = Some (File c) \<and> hash c = hex)"
    and "fst out \<noteq> Inr () \<longrightarrow> fs (snd out) dest = fs w dest"
    and "(\<forall>e \<in> set (added w (snd out)).
           e = EvLock (dest @ ''.lock'') \<or> e = EvOpen (dest @ ''.dl'') \<or> rangeRequest 0 e
           \<or> (\<exists>p n. e = EvWrite (dest @ ''.dl'') p n) \<or> e = EvUnlink (dest @ ''.dl'')
           \<or> e = EvRelease (dest @ ''.lock'') \<or> e = EvRename (dest @ ''.dl'') dest)"
    by blast+
qed



section \<open>Claims about the HTTP fetcher\<close>


lemma httpsGet_errors:
  "fst (httpsGet env url options w) = Inl e \<Longrightarrow>
     (\<exists>u. e = InvalidURL u) \<or> e = TransportFailure \<or> (\<exists>u. e = NoStatusCode u) \<or>
     (\<exists>u sc. e = BadStatus u sc \<and> (sc < 200 \<or> 300 \<le> sc))"
  by (induction url options w rule: httpsGet_result_induct [where env = env])
     (auto split: if_splits)

lemma demo_validURL [simp]: "validURL demoEnv u = (take 8 u = ''https://'')"
  by (simp add: demoEnv_def)

lemma demo_server [simp]: "server demoEnv = demoServer"
  by (simp add: demoEnv_def)

lemma requestHeaders_noOptions [simp]: "requestHeaders noOptions = []"
  by (simp add: requestHeaders_def noOptions_def spread_def)

text \<open>
  C8, as the specification states it, says that a fetch fails exactly when the redirect
  limit is exceeded, when the final status is outside 2xx/3xx, or on a transport error.
  A 304 response without a \<open>Location\<close> header refutes the "exactly": the fetch fails
  although the status lies in 3xx, no redirect has been followed (one request, limit 5)
  and the transport delivered a response.
\<close>

theorem redirect_without_location_fails:
  "fst (httpsGet demoEnv ''https://b/304'' noOptions emptyWorld) = Inl (BadStatus ''https://b/304'' 304)
   \<and> server demoEnv ''https://b/304'' [] =
       Response \<lparr>statusCode = Some 304, location = None, body = [], finish = End\<rparr>
   \<and> added emptyWorld (snd (httpsGet demoEnv ''https://b/304'' noOptions emptyWorld))
       = [EvRequest ''https://b/304'' []]
   \<and> redirectsLeft noOptions = 5"
proof -
  have s: "server demoEnv ''https://b/304'' (requestHeaders noOptions) =
       Response \<lparr>statusCode = Some 304, location = None, body = [], finish = End\<rparr>"
    by (simp add: demoServer_def LATEST_API_def)
  have "httpsGet demoEnv ''https://b/304'' noOptions emptyWorld =
      (Inl (BadStatus ''https://b/304'' 304), emit (EvRequest ''https://b/304'' []) emptyWorld)"
    using httpsGet_final [of demoEnv "''https://b/304''" noOptions _ 304, OF _ s]
    by (simp add: redirectTarget_def)
  then show ?thesis using s by (simp add: noOptions_redirects)
qed

text \<open>
  C8, amended. A fetch follows a 3xx response that carries a non-empty \<open>Location\<close> while
  redirects are left (the default limit is 5, each hop leaves one less, and the headers
  stay the same); it issues at most \<open>maxRedirects + 1\<close> requests. It succeeds exactly
  when the last request it issued was answered with a 2xx status, and fails in every
  other case: an address that does not parse, a transport error, a response without
  status, a status below 200 or from 400 on, or a 3xx status that is final because the
  response has no \<open>Location\<close> (or an empty one) or because the limit is used up. The
  byte-range variant sends \<open>Range: bytes=<offset>-\<close> with every request unless the
  caller's own headers define \<open>Range\<close>, and a 200 as well as a 206 answer to its first
  request is a success; the offset is a file size below \<open>2^53\<close>, which a template literal
  prints in plain decimal.
\<close>

theorem fetcher_contract:
  "length (added w (snd (httpsGet env url options w))) \<le> nat (redirectsLeft options) + 1
   \<and> redirectsLeft noOptions = 5
   \<and> ((fst (httpsGet env url options w) = Inr res) =
        (added w (snd (httpsGet env url options w)) \<noteq> [] \<and>
         answered2xx env (last (added w (snd (httpsGet env url options w)))) res))
   \<and> (\<not> validURL env url \<longrightarrow> httpsGet env url options w = (Inl (InvalidURL url), w))
   \<and> (validURL env url \<and> server env url (requestHeaders options) = TransportError \<longrightarrow>
        httpsGet env url options w =
          (Inl TransportFailure, emit (EvRequest url (requestHeaders options)) w))
   \<and> (validURL env url \<and> server env url (requestHeaders options) = Response r
        \<and> statusCode r = None \<longrightarrow>
        httpsGet env url options w =
          (Inl (NoStatusCode url), emit (EvRequest url (requestHeaders options)) w))
   \<and> (validURL env url \<and> server env url (requestHeaders options) = Response r
        \<and> statusCode r = Some sc \<longrightarrow>
        (200 \<le> sc \<and> sc < 300 \<longrightarrow>
           httpsGet env url options w = (Inr r, emit (EvRequest url (requestHeaders options)) w))
        \<and> (sc < 200 \<or> 400 \<le> sc \<longrightarrow>
             httpsGet env url options w =
               (Inl (BadStatus url sc), emit (EvRequest url (requestHeaders options)) w))
        \<and> (300 \<le> sc \<and> sc < 400 \<and> location r = Some l \<and> l \<noteq> [] \<and> 0 < redirectsLeft options \<longrightarrow>
             httpsGet env url options w =
               httpsGet env l (options\<lparr>maxRedirects := Some (redirectsLeft options - 1)\<rparr>)
                 (emit (EvRequest url (requestHeaders options)) w)
             \<and> requestHeaders (options\<lparr>maxRedirects := Some (redirectsLeft options - 1)\<rparr>)
                 = requestHeaders options
             \<and> redirectsLeft (options\<lparr>maxRedirects := Some (redirectsLeft options - 1)\<rparr>)
                 = redirectsLeft options - 1)
        \<and> (300 \<le> sc \<and> sc < 400
             \<and> (location r = None \<or> location r = Some [] \<or> redirectsLeft options \<le> 0) \<longrightarrow>
             httpsGet env url options w =
               (Inl (BadStatus url sc), emit (EvRequest url (requestHeaders options)) w)))
   \<and> (''Range'' \<notin> fst ` set (case headers options of None \<Rightarrow> [] | Some h \<Rightarrow> h) \<and> n < 2 ^ 53 \<longrightarrow>
        (\<forall>ev \<in> set (added w (snd (httpsGetWithRange env url n options w))).
           \<exists>u hs. ev = EvRequest u hs \<and> map_of hs ''Range'' = Some (''bytes='' @ decimal n @ ''-'')))
   \<and> (validURL env url \<and> n < 2 ^ 53 \<and>
        server env url (requestHeaders (options\<lparr>headers :=
            Some (spread [(''Range'', ''bytes='' @ decimal n @ ''-'')]
                         (case headers options of None \<Rightarrow> [] | Some h \<Rightarrow> h))\<rparr>)) = Response res' \<and>
        (statusCode res' = Some 200 \<or> statusCode res' = Some 206) \<longrightarrow>
        fst (httpsGetWithRange env url n options w) = Inr res')"
proof -
  let ?rq = "emit (EvRequest url (requestHeaders options)) w"
  have a: "length (added w (snd (httpsGet env url options w))) \<le> nat (redirectsLeft options) + 1"
    by (rule httpsGet_count)
  have b: "(fst (httpsGet env url options w) = Inr res) =
        (added w (snd (httpsGet env url options w)) \<noteq> [] \<and>
         answered2xx env (last (added w (snd (httpsGet env url options w)))) res)"
    by (rule httpsGet_success_iff)
  have c1: "\<not> validURL env url \<longrightarrow> httpsGet env url options w = (Inl (InvalidURL url), w)"
    by (simp add: httpsGet_invalid)
  have c2: "validURL env url \<and> server env url (requestHeaders options) = TransportError \<longrightarrow>
        httpsGet env url options w = (Inl TransportFailure, ?rq)"
    by (simp add: httpsGet_transport)
  have c3: "validURL env url \<and> server env url (requestHeaders options) = Response r
        \<and> statusCode r = None \<longrightarrow>
        httpsGet env url options w = (Inl (NoStatusCode url), ?rq)"
    by (simp add: httpsGet_nostatus)
  have c4: "validURL env url \<and> server env url (requestHeaders options) = Response r
        \<and> statusCode r = Some sc \<longrightarrow>
        (200 \<le> sc \<and> sc < 300 \<longrightarrow> httpsGet env url options w = (Inr r, ?rq))
        \<and> (sc < 200 \<or> 400 \<le> sc \<longrightarrow> httpsGet env url options w = (Inl (BadStatus url sc), ?rq))
        \<and> (300 \<le> sc \<and> sc < 400 \<and> location r = Some l \<and> l \<noteq> [] \<and> 0 < redirectsLeft options \<longrightarrow>
             httpsGet env url options w =
               httpsGet env l (options\<lparr>maxRedirects := Some (redirectsLeft options - 1)\<rparr>) ?rq
             \<and> requestHeaders (options\<lparr>maxRedirects := Some (redirectsLeft options - 1)\<rparr>)
                 = requestHeaders options
             \<and> redirectsLeft (options\<lparr>maxRedirects := Some (redirectsLeft options - 1)\<rparr>)
                 = redirectsLeft options - 1)
        \<and> (300 \<le> sc \<and> sc < 400
             \<and> (location r = None \<or> location r = Some [] \<or> redirectsLeft options \<le> 0) \<longrightarrow>
             httpsGet env url options w = (Inl (BadStatus url sc), ?rq))"
  proof (intro impI, elim conjE)
    assume v: "validURL env url" and s: "server env url (requestHeaders options) = Response r"
      and sc: "statusCode r = Some sc"
    have ok: "200 \<le> sc \<and> sc < 300 \<longrightarrow> httpsGet env url options w = (Inr r, ?rq)"
    proof
      assume "200 \<le> sc \<and> sc < 300"
      then have "redirectTarget sc (location r) (redirectsLeft options) = None"
        by (simp add: redirectTarget_def split: option.splits)
      from httpsGet_final [OF v s sc this] \<open>200 \<le> sc \<and> sc < 300\<close>
      show "httpsGet env url options w = (Inr r, ?rq)" by simp
    qed
    have bad: "sc < 200 \<or> 400 \<le> sc \<longrightarrow> httpsGet env url options w = (Inl (BadStatus url sc), ?rq)"
    proof
      assume o: "sc < 200 \<or> 400 \<le> sc"
      then have "redirectTarget sc (location r) (redirectsLeft options) = None"
        by (auto simp: redirectTarget_def split: option.splits)
      from httpsGet_final [OF v s sc this] o
      show "httpsGet env url options w = (Inl (BadStatus url sc), ?rq)" by auto
    qed
    have follow: "300 \<le> sc \<and> sc < 400 \<and> location r = Some l \<and> l \<noteq> [] \<and> 0 < redirectsLeft options \<longrightarrow>
             httpsGet env url options w =
               httpsGet env l (options\<lparr>maxRedirects := Some (redirectsLeft options - 1)\<rparr>) ?rq
             \<and> requestHeaders (options\<lparr>maxRedirects := Some (redirectsLeft options - 1)\<rparr>)
                 = requestHeaders options
             \<and> redirectsLeft (options\<lparr>maxRedirects := Some (redirectsLeft options - 1)\<rparr>)
                 = redirectsLeft options - 1"
    proof
      assume o: "300 \<le> sc \<and> sc < 400 \<and> location r = Some l \<and> l \<noteq> [] \<and> 0 < redirectsLeft options"
      then have "redirectTarget sc (location r) (redirectsLeft options) = Some l"
        by (simp add: redirectTarget_def)
      from httpsGet_redirect [OF v s sc this]
      show "httpsGet env url options w =
               httpsGet env l (options\<lparr>maxRedirects := Some (redirectsLeft options - 1)\<rparr>) ?rq
             \<and> requestHeaders (options\<lparr>maxRedirects := Some (redirectsLeft options - 1)\<rparr>)
                 = requestHeaders options
             \<and> redirectsLeft (options\<lparr>maxRedirects := Some (redirectsLeft options - 1)\<rparr>)
                 = redirectsLeft options - 1"
        by (simp add: requestHeaders_def redirectsLeft_def)
    qed
    have final: "300 \<le> sc \<and> sc < 400
             \<and> (location r = None \<or> location r = Some [] \<or> redirectsLeft options \<le> 0) \<longrightarrow>
             httpsGet env url options w = (Inl (BadStatus url sc), ?rq)"
    proof
      assume o: "300 \<le> sc \<and> sc < 400
             \<and> (location r = None \<or> location r = Some [] \<or> redirectsLeft options \<le> 0)"
      then have "redirectTarget sc (location r) (redirectsLeft options) = None"
        by (auto simp: redirectTarget_def split: option.splits)
      from httpsGet_final [OF v s sc this] o
      show "httpsGet env url options w = (Inl (BadStatus url sc), ?rq)" by auto
    qed
    from ok bad follow final
    show "(200 \<le> sc \<and> sc < 300 \<longrightarrow> httpsGet env url options w = (Inr r, ?rq))
        \<and> (sc < 200 \<or> 400 \<le> sc \<longrightarrow> httpsGet env url options w = (Inl (BadStatus url sc), ?rq))
        \<and> (300 \<le> sc \<and> sc < 400 \<and> location r = Some l \<and> l \<noteq> [] \<and> 0 < redirectsLeft options \<longrightarrow>
             httpsGet env url options w =
               httpsGet env l (options\<lparr>maxRedirects := Some (redirectsLeft options - 1)\<rparr>) ?rq
             \<and> requestHeaders (options\<lparr>maxRedirects := Some (redirectsLeft options - 1)\<rparr>)
                 = requestHeaders options
             \<and> redirectsLeft (options\<lparr>maxRedirects := Some (redirectsLeft options - 1)\<rparr>)
                 = redirectsLeft options - 1)
        \<and> (300 \<le> sc \<and> sc < 400
             \<and> (location r = None \<or> location r = Some [] \<or> redirectsLeft options \<le> 0) \<longrightarrow>
             httpsGet env url options w = (Inl (BadStatus url sc), ?rq))"
      by (intro conjI)
  qed
  have d: "''Range'' \<notin> fst ` set (case headers options of None \<Rightarrow> [] | Some h \<Rightarrow> h) \<and> n < 2 ^ 53 \<longrightarrow>
        (\<forall>ev \<in> set (added w (snd (httpsGetWithRange env url n options w))).
           \<exists>u hs. ev = EvRequest u hs \<and> map_of hs ''Range'' = Some (''bytes='' @ decimal n @ ''-''))"
    using httpsGetWithRange_requests by blast
  have e: "validURL env url \<and> n < 2 ^ 53 \<and>
        server env url (requestHeaders (options\<lparr>headers :=
            Some (spread [(''Range'', ''bytes='' @ decimal n @ ''-'')]
                         (case headers options of None \<Rightarrow> [] | Some h \<Rightarrow> h))\<rparr>)) = Response res' \<and>
        (statusCode res' = Some 200 \<or> statusCode res' = Some 206) \<longrightarrow>
        fst (httpsGetWithRange env url n options w) = Inr res'"
    using httpsGetWithRange_accepts by blast
  from a noOptions_redirects b c1 c2 c3 c4 d e show ?thesis by (intro conjI)
qed

text \<open>
  On the test environment: the asset address answers 302 with a \<open>Location\<close>, which is
  followed, and the second request succeeds; an address that redirects to itself is
  followed five times and fails at the sixth request; a range request from offset 3
  carries \<open>bytes=3-\<close> and its 206 answer is a success.
\<close>

theorem fetcher_contract_witness:
  "fst (httpsGet demoEnv ''https://a/sfw'' noOptions emptyWorld) =
        Inr \<lparr>statusCode = Some 200, location = None, body = [Data ''abc'', Data ''def''], finish = End\<rparr>
   \<and> added emptyWorld (snd (httpsGet demoEnv ''https://a/sfw'' noOptions emptyWorld)) =
        [EvRequest ''https://a/sfw'' [], EvRequest ''https://b/sfw'' []]
   \<and> fst (httpsGet demoEnv ''https://b/loop'' noOptions emptyWorld) =
        Inl (BadStatus ''https://b/loop'' 302)
   \<and> added emptyWorld (snd (httpsGet demoEnv ''https://b/loop'' noOptions emptyWorld)) =
        replicate 6 (EvRequest ''https://b/loop'' [])
   \<and> list_all (\<lambda>ev. case ev of EvRequest u hs \<Rightarrow> map_of hs ''Range'' = Some ''bytes=3-'' | _ \<Rightarrow> False)
        (added emptyWorld (snd (httpsGetWithRange demoEnv ''https://b/sfw'' 3 noOptions emptyWorld)))
   \<and> fst (httpsGetWithRange demoEnv ''https://b/sfw'' 3 noOptions emptyWorld) =
        Inr \<lparr>statusCode = Some 206, location = None, body = [Data ''def''], finish = End\<rparr>"
proof -
  let ?res = "\<lparr>statusCode = Some 206, location = None, body = [Data ''def''], finish = End\<rparr>"
  let ?r200 = "\<lparr>statusCode = Some 200, location = None, body = [Data ''abc'', Data ''def''], finish = End\<rparr>"
  let ?r302 = "\<lparr>statusCode = Some 302, location = Some ''https://b/sfw'', body = [], finish = End\<rparr>"
  let ?rloop = "\<lparr>statusCode = Some 302, location = Some ''https://b/loop'', body = [], finish = End\<rparr>"
  have rh: "requestHeaders (noOptions\<lparr>maxRedirects := m\<rparr>) = []" for m
    by (simp add: requestHeaders_def noOptions_def spread_def)
  have rl: "redirectsLeft (noOptions\<lparr>maxRedirects := Some k\<rparr>) = k" for k
    by (simp add: redirectsLeft_def)
  have nm: "noOptions\<lparr>maxRedirects := Some j\<rparr>\<lparr>maxRedirects := Some k\<rparr> = noOptions\<lparr>maxRedirects := Some k\<rparr>" for j k
    by simp
  have sa: "server demoEnv ''https://a/sfw'' (requestHeaders noOptions) = Response ?r302"
    by (simp add: demoServer_def LATEST_API_def)
  have sb: "server demoEnv ''https://b/sfw'' (requestHeaders (noOptions\<lparr>maxRedirects := Some 4\<rparr>)) = Response ?r200"
    by (simp add: rh demoServer_def LATEST_API_def)
  from fetcher_contract [where env = demoEnv and url = "''https://a/sfw''" and options = noOptions
      and r = ?r302 and sc = 302 and l = "''https://b/sfw''"] sa
  have hop_a: "httpsGet demoEnv ''https://a/sfw'' noOptions w =
      httpsGet demoEnv ''https://b/sfw'' (noOptions\<lparr>maxRedirects := Some 4\<rparr>)
        (emit (EvRequest ''https://a/sfw'' []) w)" for w
    by (simp add: noOptions_redirects)
  from fetcher_contract [where env = demoEnv and url = "''https://b/sfw''"
      and options = "noOptions\<lparr>maxRedirects := Some 4\<rparr>" and r = ?r200 and sc = 200] sb
  have hop_b: "httpsGet demoEnv ''https://b/sfw'' (noOptions\<lparr>maxRedirects := Some 4\<rparr>) w =
      (Inr ?r200, emit (EvRequest ''https://b/sfw'' []) w)" for w
    by (simp add: rh)
  have p1: "fst (httpsGet demoEnv ''https://a/sfw'' noOptions emptyWorld) = Inr ?r200"
    and p2: "added emptyWorld (snd (httpsGet demoEnv ''https://a/sfw'' noOptions emptyWorld)) =
        [EvRequest ''https://a/sfw'' [], EvRequest ''https://b/sfw'' []]"
    by (simp_all add: hop_a hop_b added_def emit_def emptyWorld_def)
  have sl: "server demoEnv ''https://b/loop'' (requestHeaders (noOptions\<lparr>maxRedirects := m\<rparr>)) = Response ?rloop" for m
    by (simp add: rh demoServer_def LATEST_API_def)
  have sl0: "server demoEnv ''https://b/loop'' (requestHeaders noOptions) = Response ?rloop"
    by (simp add: demoServer_def LATEST_API_def)
  from fetcher_contract [where env = demoEnv and url = "''https://b/loop''" and options = noOptions
      and r = ?rloop and sc = 302 and l = "''https://b/loop''"] sl0
  have first: "httpsGet demoEnv ''https://b/loop'' noOptions w =
      httpsGet demoEnv ''https://b/loop'' (noOptions\<lparr>maxRedirects := Some 4\<rparr>)
        (emit (EvRequest ''https://b/loop'' []) w)" for w
    by (simp add: noOptions_redirects)
  have hop: "httpsGet demoEnv ''https://b/loop'' (noOptions\<lparr>maxRedirects := Some k\<rparr>) w =
      (if 0 < k
       then httpsGet demoEnv ''https://b/loop'' (noOptions\<lparr>maxRedirects := Some (k - 1)\<rparr>)
              (emit (EvRequest ''https://b/loop'' []) w)
       else (Inl (BadStatus ''https://b/loop'' 302), emit (EvRequest ''https://b/loop'' []) w))" for k w
    using fetcher_contract [where env = demoEnv and url = "''https://b/loop''"
      and options = "noOptions\<lparr>maxRedirects := Some k\<rparr>" and r = ?rloop and sc = 302
      and l = "''https://b/loop''" and w = w] sl [of "Some k"]
    by (simp add: rh rl nm)
  have p3: "fst (httpsGet demoEnv ''https://b/loop'' noOptions emptyWorld) =
        Inl (BadStatus ''https://b/loop'' 302)"
    and p4: "added emptyWorld (snd (httpsGet demoEnv ''https://b/loop'' noOptions emptyWorld)) =
        replicate 6 (EvRequest ''https://b/loop'' [])"
    by (simp_all add: first hop added_def emit_def emptyWorld_def eval_nat_numeral)
  have h0: "''Range'' \<notin> fst ` set (case headers noOptions of None \<Rightarrow> [] | Some h \<Rightarrow> h)"
    by (simp add: noOptions_def)
  have d3: "decimal 3 = ''3''" by (simp add: decimal.simps)
  have h1: "validURL demoEnv ''https://b/sfw''" by simp
  have h2: "server demoEnv ''https://b/sfw'' (requestHeaders (noOptions\<lparr>headers :=
            Some (spread [(''Range'', ''bytes='' @ decimal 3 @ ''-'')]
                         (case headers noOptions of None \<Rightarrow> [] | Some h \<Rightarrow> h))\<rparr>)) = Response ?res"
    by (simp add: d3 noOptions_def requestHeaders_def spread_def demoServer_def LATEST_API_def)
  have h3: "statusCode ?res = Some 200 \<or> statusCode ?res = Some 206" by simp
  have h4: "(3::nat) < 2 ^ 53" by simp
  note t = fetcher_contract [where env = demoEnv and url = "''https://b/sfw''" and options = noOptions
      and w = emptyWorld and n = 3 and res' = ?res]
  from t h0 h4 have "\<forall>ev \<in> set (added emptyWorld (snd (httpsGetWithRange demoEnv ''https://b/sfw'' 3 noOptions emptyWorld))).
           \<exists>u hs. ev = EvRequest u hs \<and> map_of hs ''Range'' = Some ''bytes=3-''"
    unfolding d3 by simp
  then have p5: "list_all (\<lambda>ev. case ev of EvRequest u hs \<Rightarrow> map_of hs ''Range'' = Some ''bytes=3-'' | _ \<Rightarrow> False)
        (added emptyWorld (snd (httpsGetWithRange demoEnv ''https://b/sfw'' 3 noOptions emptyWorld)))"
    unfolding list_all_iff by fastforce
  from t h1 h2 h3 h4 have p6: "fst (httpsGetWithRange demoEnv ''https://b/sfw'' 3 noOptions emptyWorld) = Inr ?res"
    by blast
  from p1 p2 p3 p4 p5 p6 show ?thesis by (intro conjI)
qed


section \<open>Claims about the resumable downloader\<close>

subsection \<open>Scenarios of one download\<close>

text \<open>Once the lock is held and the pending file is open, the pending file is empty.\<close>

lemma eager_setup:
  assumes "createHash env algo = Some hash"
    and "dest @ ''.lock'' \<notin> locks w"
    and "fs w (dest @ ''.dl'') = None \<or> (\<exists>c. fs w (dest @ ''.dl'') = Some (File c))"
  obtains w2 where "fs w2 = (fs w)(dest @ ''.dl'' \<mapsto> File [])"
    and "trace w2 = trace w @ [EvLock (dest @ ''.lock''), EvOpen (dest @ ''.dl'')]"
    and "\<And>r w3. downloadWithResume env url (dest @ ''.dl'') 0 False hash hex (dest @ ''.dl'') w2 = (r, w3) \<Longrightarrow>
          eagerAcquireLockAndDownload env url dest algo hex w =
           (case r of
              Inl e \<Rightarrow> (Inl e, release (dest @ ''.lock'') w3)
            | Inr res \<Rightarrow> renameSync (dest @ ''.dl'') dest (release (dest @ ''.lock'') w3))"
proof -
  let ?P = "dest @ ''.dl''" and ?L = "dest @ ''.lock''"
  define w1 where "w1 = emit (EvLock ?L) (w\<lparr>locks := insert ?L (locks w)\<rparr>)"
  define w2 where "w2 = emit (EvOpen ?P) (w1\<lparr>fs := (fs w1)(?P \<mapsto> File [])\<rparr>)"
  have lk: "lock ?L w = (Inr (), w1)"
    using assms(2) by (simp add: lock_def w1_def)
  have "follow 40 (fs w1) ?P = Inr ?P"
    by (rule follow_plain) (use assms(3) in \<open>auto simp: w1_def emit_def\<close>)
  then have op: "openSync ?P W_plus w1 = (Inr ?P, w2)"
    using assms(3) by (auto simp: openSync_def w2_def w1_def emit_def)
  have sz: "getSizeOnDisk ?P w2 = 0"
    by (simp add: getSizeOnDisk_def w2_def emit_def)
  show ?thesis
  proof (rule that [of w2])
    show "fs w2 = (fs w)(?P \<mapsto> File [])" by (simp add: w2_def w1_def emit_def)
    show "trace w2 = trace w @ [EvLock ?L, EvOpen ?P]" by (simp add: w2_def w1_def emit_def)
    fix r w3
    assume "downloadWithResume env url ?P 0 False hash hex ?P w2 = (r, w3)"
    then have "downloadWithResume env url ?P (getSizeOnDisk ?P w2) False hash hex ?P w2 = (r, w3)"
      by (simp add: sz)
    from eager_after_open [OF assms(1) lk op this]
    show "eagerAcquireLockAndDownload env url dest algo hex w =
           (case r of
              Inl e \<Rightarrow> (Inl e, release ?L w3)
            | Inr res \<Rightarrow> renameSync ?P dest (release ?L w3))" .
  qed
qed

lemma downloadWithResume_compromised:
  assumes "fs w fd = Some (File c)"
    and "fst (httpsGetWithRange env url (length c) noOptions w) = Inr res"
    and "Compromised \<in> set (body res)"
  shows "\<exists>e w' evs. downloadWithResume env url fd (length c) False hash hex fd w = (Inl e, w')
           \<and> (e = Aborted \<or> e = StreamFailure)
           \<and> fs w' = (fs w)(fd \<mapsto> File (c @ concat (chunks (takeWhile (\<lambda>e. e \<noteq> Compromised) (body res)))))
           \<and> trace w' = trace w @ evs
           \<and> (\<forall>e \<in> set evs. isRequest e \<or> (\<exists>p n. e = EvWrite fd p n))"
proof -
  define g where "g = httpsGetWithRange env url (length c) noOptions w"
  have g_eq: "httpsGetWithRange env url (length c) noOptions w = (Inr res, snd g)"
    using assms(2) unfolding g_def by (intro prod_eqI) simp_all
  have gf: "fs (snd g) fd = Some (File c)" and g_fs: "fs (snd g) = fs w"
    using assms(1) by (simp_all add: g_def httpsGetWithRange_frame)
  obtain reqs where g_trace: "trace (snd g) = trace w @ reqs" and reqs: "\<forall>e \<in> set reqs. isRequest e"
    using httpsGetWithRange_trace [of env url "length c" noOptions w] by (auto simp: g_def)
  define sv where "sv = saveToDisk (body res) (finish res) fd (length c) False None (snd g)"
  from saveToDisk_world [OF gf, of "body res" "finish res" None]
  obtain ws where sv_fs: "fs (snd sv) = (fs (snd g))(fd \<mapsto> File (c @ concat (chunks (takeWhile (\<lambda>e. e \<noteq> Compromised) (body res)))))"
    and sv_trace: "trace (snd sv) = trace (snd g) @ ws"
    and ws: "\<forall>e \<in> set ws. \<exists>p n. e = EvWrite fd p n"
    unfolding sv_def by blast
  from saveToDisk_aborts [of False "body res" None "finish res" fd "length c" "snd g"] assms(3)
  obtain e where e: "fst sv = Inl e" "e = Aborted \<or> e = StreamFailure"
    unfolding sv_def by auto
  then have "saveToDisk (body res) (finish res) fd (length c) False None (snd g) = (Inl e, snd sv)"
    unfolding sv_def by (intro prod_eqI) simp_all
  then have "downloadWithResume env url fd (length c) False hash hex fd w = (Inl e, snd sv)"
    by (rule downloadWithResume_stream_fails [OF g_eq])
  moreover have "trace (snd sv) = trace w @ (reqs @ ws)" by (simp add: sv_trace g_trace)
  moreover have "\<forall>e \<in> set (reqs @ ws). isRequest e \<or> (\<exists>p n. e = EvWrite fd p n)"
    using reqs ws by auto
  ultimately show ?thesis using e(2) sv_fs g_fs by (intro exI [of _ e] exI [of _ "snd sv"] exI [of _ "reqs @ ws"]) simp
qed

lemma downloadWithResume_rejects:
  assumes "fs w fd = Some (File c)"
    and "fst (httpsGetWithRange env url (length c) noOptions w) = Inr res"
    and "Compromised \<notin> set (body res)" and "finish res = End"
    and "hash (c @ concat (chunks (body res))) \<noteq> hex"
  shows "\<exists>w' evs. downloadWithResume env url fd (length c) False hash hex fd w = (Inl IntegrityCheckFailed, w')
           \<and> fs w' = (fs w)(fd := None)
           \<and> trace w' = trace w @ evs @ [EvUnlink fd]
           \<and> (\<forall>e \<in> set evs. isRequest e \<or> (\<exists>p n. e = EvWrite fd p n))"
proof -
  define g where "g = httpsGetWithRange env url (length c) noOptions w"
  have g_eq: "httpsGetWithRange env url (length c) noOptions w = (Inr res, snd g)"
    using assms(2) unfolding g_def by (intro prod_eqI) simp_all
  have gf: "fs (snd g) fd = Some (File c)" and g_fs: "fs (snd g) = fs w"
    using assms(1) by (simp_all add: g_def httpsGetWithRange_frame)
  obtain reqs where g_trace: "trace (snd g) = trace w @ reqs" and reqs: "\<forall>e \<in> set reqs. isRequest e"
    using httpsGetWithRange_trace [of env url "length c" noOptions w] by (auto simp: g_def)
  define sv where "sv = saveToDisk (body res) (finish res) fd (length c) False None (snd g)"
  have tw: "takeWhile (\<lambda>e. e \<noteq> Compromised) (body res) = body res"
    using assms(3) by (auto simp: takeWhile_eq_all_conv)
  from saveToDisk_world [OF gf, of "body res" "finish res" None]
  obtain ws where sv_fs: "fs (snd sv) = (fs (snd g))(fd \<mapsto> File (c @ concat (chunks (body res))))"
    and sv_trace: "trace (snd sv) = trace (snd g) @ ws"
    and ws: "\<forall>e \<in> set ws. \<exists>p n. e = EvWrite fd p n"
    unfolding sv_def tw by blast
  have "fst sv = Inr ()"
    unfolding sv_def using saveToDisk_completes [OF assms(3)] assms(4) by simp
  then have sv_eq: "saveToDisk (body res) (finish res) fd (length c) False None (snd g) = (Inr (), snd sv)"
    unfolding sv_def by (intro prod_eqI) simp_all
  have cont: "hash (contents fd (snd sv)) \<noteq> hex"
    using assms(5) by (simp add: contents_def sv_fs)
  define w' where "w' = emit (EvUnlink fd) ((snd sv)\<lparr>fs := (fs (snd sv))(fd := None)\<rparr>)"
  have ul: "unlinkSync fd (snd sv) = (Inr (), w')"
    unfolding w'_def by (rule unlinkSync_file [of _ _ "c @ concat (chunks (body res))"]) (simp add: sv_fs)
  have "downloadWithResume env url fd (length c) False hash hex fd w = (Inl IntegrityCheckFailed, w')"
    by (rule downloadWithResume_mismatch [where hash = hash and hex = hex, OF g_eq sv_eq cont ul])
  moreover have "trace w' = trace w @ (reqs @ ws) @ [EvUnlink fd]"
    by (simp add: w'_def emit_def sv_trace g_trace)
  moreover have "\<forall>e \<in> set (reqs @ ws). isRequest e \<or> (\<exists>p n. e = EvWrite fd p n)"
    using reqs ws by auto
  moreover have "fs w' = (fs w)(fd := None)"
    by (simp add: w'_def emit_def sv_fs g_fs)
  ultimately show ?thesis by blast
qed


subsection \<open>The test environment at work\<close>

lemma demo_createHash [simp]: "createHash demoEnv a = (if a = ''sha256'' then Some demoHash else None)"
  by (simp add: demoEnv_def)

lemma demo_fetch_redirected:
  "httpsGetWithRange demoEnv ''https://a/sfw'' 0 noOptions w =
     (Inr \<lparr>statusCode = Some 200, location = None, body = [Data ''abc'', Data ''def''], finish = End\<rparr>,
      emit (EvRequest ''https://b/sfw'' [(''Range'', ''bytes=0-'')])
        (emit (EvRequest ''https://a/sfw'' [(''Range'', ''bytes=0-'')]) w))"
proof -
  let ?o = "noOptions\<lparr>headers := Some [(''Range'', ''bytes=0-'')]\<rparr>"
  have rh: "requestHeaders ?o = [(''Range'', ''bytes=0-'')]"
    by (simp add: requestHeaders_def noOptions_def spread_def)
  have rl: "redirectsLeft ?o = 5" by (simp add: redirectsLeft_def noOptions_def)
  have s1: "server demoEnv ''https://a/sfw'' (requestHeaders ?o) =
      Response \<lparr>statusCode = Some 302, location = Some ''https://b/sfw'', body = [], finish = End\<rparr>"
    by (simp add: demoServer_def LATEST_API_def)
  have s2: "server demoEnv ''https://b/sfw'' (requestHeaders (?o\<lparr>maxRedirects := Some (redirectsLeft ?o - 1)\<rparr>)) =
      Response \<lparr>statusCode = Some 200, location = None, body = [Data ''abc'', Data ''def''], finish = End\<rparr>"
    by (simp add: demoServer_def LATEST_API_def rh)
  have "httpsGet demoEnv ''https://a/sfw'' ?o w =
        httpsGet demoEnv ''https://b/sfw'' (?o\<lparr>maxRedirects := Some (redirectsLeft ?o - 1)\<rparr>)
          (emit (EvRequest ''https://a/sfw'' (requestHeaders ?o)) w)"
    by (rule httpsGet_redirect [where sc = 302, OF _ s1]) (simp_all add: redirectTarget_def rl)
  also have "\<dots> = (Inr \<lparr>statusCode = Some 200, location = None, body = [Data ''abc'', Data ''def''], finish = End\<rparr>,
      emit (EvRequest ''https://b/sfw'' [(''Range'', ''bytes=0-'')])
        (emit (EvRequest ''https://a/sfw'' [(''Range'', ''bytes=0-'')]) w))"
    using httpsGet_final [where sc = 200, OF _ s2] by (simp add: redirectTarget_def rh)
  finally show ?thesis
    by (simp add: httpsGetWithRange_def decimal.simps noOptions_def spread_def)
qed

text \<open>A range request from offset 0 to an address that answers 200 without redirecting.\<close>

lemma demo_fetch_direct:
  assumes "take 8 u = ''https://''"
    and "demoServer u [(''Range'', ''bytes=0-'')] = Response res"
    and "statusCode res = Some 200"
  shows "httpsGetWithRange demoEnv u 0 noOptions w = (Inr res, emit (EvRequest u [(''Range'', ''bytes=0-'')]) w)"
proof -
  let ?o = "noOptions\<lparr>headers := Some [(''Range'', ''bytes=0-'')]\<rparr>"
  have rh: "requestHeaders ?o = [(''Range'', ''bytes=0-'')]"
    by (simp add: requestHeaders_def noOptions_def spread_def)
  have s: "server demoEnv u (requestHeaders ?o) = Response res"
    using assms(2) by (simp add: rh)
  have "httpsGet demoEnv u ?o w = (Inr res, emit (EvRequest u [(''Range'', ''bytes=0-'')]) w)"
    using httpsGet_final [where sc = 200, OF _ s assms(3)] assms(1)
    by (simp add: redirectTarget_def rh split: option.splits)
  then show ?thesis
    by (simp add: httpsGetWithRange_def decimal.simps noOptions_def spread_def)
qed

lemmas demo_run =
  eagerAcquireLockAndDownload_def lock_def openSync_def follow_cases emptyWorld_def emit_def getSizeOnDisk_def
  downloadWithResume_def writeSync_def pwrite_def checkIntegrity_eq contents_def fsyncSync_def
  closeSync_def release_def renameSync_def unlinkSync_def demoHash_def decimal.simps added_def



text \<open>
  C1. The pending file is opened with flag \<open>'w+'\<close>, which truncates it, so the size
  measured next is 0 whatever the file held: here it holds the first three bytes of the
  payload, and the request that follows asks for \<open>bytes=0-\<close>, not \<open>bytes=3-\<close>; the whole
  payload is fetched and written again from offset 0.
\<close>

theorem pending_truncated_on_open:
  "getSizeOnDisk ''/r/bin.dl'' resumeWorld = 3
   \<and> added resumeWorld
        (snd (eagerAcquireLockAndDownload demoEnv ''https://b/sfw'' ''/r/bin'' ''sha256'' ''85'' resumeWorld))
      = [EvLock ''/r/bin.lock'', EvOpen ''/r/bin.dl'',
         EvRequest ''https://b/sfw'' [(''Range'', ''bytes=0-'')],
         EvWrite ''/r/bin.dl'' 0 3, EvWrite ''/r/bin.dl'' 3 3,
         EvRelease ''/r/bin.lock'', EvRename ''/r/bin.dl'' ''/r/bin'']
   \<and> fs (snd (eagerAcquireLockAndDownload demoEnv ''https://b/sfw'' ''/r/bin'' ''sha256'' ''85'' resumeWorld))
        ''/r/bin'' = Some (File ''abcdef'')"
proof -
  have "httpsGetWithRange demoEnv ''https://b/sfw'' 0 noOptions w =
      (Inr \<lparr>statusCode = Some 200, location = None, body = [Data ''abc'', Data ''def''], finish = End\<rparr>,
       emit (EvRequest ''https://b/sfw'' [(''Range'', ''bytes=0-'')]) w)" for w
    by (rule demo_fetch_direct) (simp_all add: demoServer_def LATEST_API_def)
  then show ?thesis by (simp add: demo_run resumeWorld_def)
qed

text \<open>Flag \<open>'w+'\<close> leaves nothing to resume from; flag \<open>'a+'\<close> would.\<close>

lemma openSync_flags:
  assumes "fs w p = Some (File c)"
  shows "getSizeOnDisk p (snd (openSync p W_plus w)) = 0"
    and "getSizeOnDisk p (snd (openSync p A_plus w)) = length c"
  using assms by (simp_all add: openSync_def follow_cases getSizeOnDisk_def emit_def)

text \<open>
  The same for every call: whatever the pending file holds, each request of a download
  asks for \<open>bytes=0-\<close>.
\<close>

lemma eager_requests_from_zero:
  assumes "\<And>t. fs w (dest @ ''.dl'') \<noteq> Some (Symlink t)"
    and "e \<in> set (added w (snd (eagerAcquireLockAndDownload env url dest algo hex w)))"
    and "isRequest e"
  shows "\<exists>u. e = EvRequest u [(''Range'', ''bytes=0-'')]"
proof -
  have "rangeRequest 0 e"
    using eager_publishes_verified(4) [where env = env and url = url and dest = dest and algo = algo
        and hex = hex and w = w, OF assms(1)] assms(2,3) by fastforce
  then show ?thesis
    by (cases e) (simp_all add: decimal.simps)
qed



text \<open>
  C3. When the stream of a download completes (no lock compromise, \<open>end\<close> reached) and the
  digest of the pending file, which then holds the streamed bytes, is not \<open>expectedHex\<close>,
  the pending file is deleted, the call fails with the integrity error, and the
  destination is left as it was: the rename is not executed.
\<close>

theorem digest_mismatch_deletes_pending:
  assumes "createHash env algo = Some hash"
    and "dest @ ''.lock'' \<notin> locks w"
    and "fs w (dest @ ''.dl'') = None \<or> (\<exists>c. fs w (dest @ ''.dl'') = Some (File c))"
    and "fst (httpsGetWithRange env url 0 noOptions w) = Inr res"
    and "Compromised \<notin> set (body res)" and "finish res = End"
    and "hash (concat (chunks (body res))) \<noteq> hex"
  shows "fst (eagerAcquireLockAndDownload env url dest algo hex w) = Inl IntegrityCheckFailed
    \<and> fs (snd (eagerAcquireLockAndDownload env url dest algo hex w)) (dest @ ''.dl'') = None
    \<and> fs (snd (eagerAcquireLockAndDownload env url dest algo hex w)) dest = fs w dest
    \<and> EvUnlink (dest @ ''.dl'') \<in> set (added w (snd (eagerAcquireLockAndDownload env url dest algo hex w)))
    \<and> EvRename (dest @ ''.dl'') dest \<notin> set (added w (snd (eagerAcquireLockAndDownload env url dest algo hex w)))"
proof -
  let ?P = "dest @ ''.dl''" and ?L = "dest @ ''.lock''"
  from eager_setup [OF assms(1-3), of url hex]
  obtain w2 where w2_fs: "fs w2 = (fs w)(?P \<mapsto> File [])"
    and w2_tr: "trace w2 = trace w @ [EvLock ?L, EvOpen ?P]"
    and red: "\<And>r w3. downloadWithResume env url ?P 0 False hash hex ?P w2 = (r, w3) \<Longrightarrow>
          eagerAcquireLockAndDownload env url dest algo hex w =
           (case r of
              Inl e \<Rightarrow> (Inl e, release ?L w3)
            | Inr res \<Rightarrow> renameSync ?P dest (release ?L w3))"
    by blast
  have f2: "fs w2 ?P = Some (File [])" by (simp add: w2_fs)
  have r2: "fst (httpsGetWithRange env url (length ([] :: string)) noOptions w2) = Inr res"
    using assms(4) httpsGetWithRange_outcome_world [of env url 0 noOptions w2 w] by simp
  have h2: "hash ([] @ concat (chunks (body res))) \<noteq> hex" using assms(7) by simp
  from downloadWithResume_rejects [where hash = hash and hex = hex and c = "[]", OF f2 r2 assms(5,6) h2]
  obtain w3 evs where d: "downloadWithResume env url ?P 0 False hash hex ?P w2 = (Inl IntegrityCheckFailed, w3)"
    and w3_fs: "fs w3 = (fs w2)(?P := None)"
    and w3_tr: "trace w3 = trace w2 @ evs @ [EvUnlink ?P]"
    and evs: "\<forall>e \<in> set evs. isRequest e \<or> (\<exists>p n. e = EvWrite ?P p n)"
    by auto
  have out: "eagerAcquireLockAndDownload env url dest algo hex w = (Inl IntegrityCheckFailed, release ?L w3)"
    using red [OF d] by simp
  have tr: "trace (release ?L w3) = trace w @ ([EvLock ?L, EvOpen ?P] @ evs @ [EvUnlink ?P, EvRelease ?L])"
    by (simp add: release_def emit_def w3_tr w2_tr)
  have no: "EvRename ?P dest \<notin> set evs" using evs by fastforce
  show ?thesis
    unfolding out using no by (simp add: added_append [OF tr]) (simp add: release_def emit_def w3_fs w2_fs)
qed

theorem digest_mismatch_deletes_pending_witness:
  "fst (eagerAcquireLockAndDownload demoEnv ''https://b/bad'' ''/r/bin'' ''sha256'' ''85'' emptyWorld)
     = Inl IntegrityCheckFailed
   \<and> fs (snd (eagerAcquireLockAndDownload demoEnv ''https://b/bad'' ''/r/bin'' ''sha256'' ''85'' emptyWorld))
        ''/r/bin.dl'' = None
   \<and> fs (snd (eagerAcquireLockAndDownload demoEnv ''https://b/bad'' ''/r/bin'' ''sha256'' ''85'' emptyWorld))
        ''/r/bin'' = None"
proof -
  let ?res = "\<lparr>statusCode = Some 200, location = None, body = [Data ''abx'', Data ''def''], finish = End\<rparr>"
  have h1: "createHash demoEnv ''sha256'' = Some demoHash" by simp
  have h2: "''/r/bin'' @ ''.lock'' \<notin> locks emptyWorld" by (simp add: emptyWorld_def)
  have h3: "fs emptyWorld (''/r/bin'' @ ''.dl'') = None \<or> (\<exists>c. fs emptyWorld (''/r/bin'' @ ''.dl'') = Some (File c))"
    by (simp add: emptyWorld_def)
  have "httpsGetWithRange demoEnv ''https://b/bad'' 0 noOptions emptyWorld =
      (Inr ?res, emit (EvRequest ''https://b/bad'' [(''Range'', ''bytes=0-'')]) emptyWorld)"
    by (rule demo_fetch_direct) (simp_all add: demoServer_def LATEST_API_def)
  then have h4: "fst (httpsGetWithRange demoEnv ''https://b/bad'' 0 noOptions emptyWorld) = Inr ?res"
    by simp
  have h5: "Compromised \<notin> set (body ?res)" and h6: "finish ?res = End" by simp_all
  have h7: "demoHash (concat (chunks (body ?res))) \<noteq> ''85''"
    by (simp add: demoHash_def decimal.simps)
  from digest_mismatch_deletes_pending [OF h1 h2 h3 h4 h5 h6 h7]
  show ?thesis by (simp add: emptyWorld_def)
qed

text \<open>
  C7. When the lock is compromised while the response is consumed, the call fails; the
  pending file stays in place and holds exactly the chunks that arrived before the
  signal (no later chunk is written); nothing is unlinked and nothing is renamed, so the
  destination is what it was.
\<close>

theorem compromised_lock_keeps_pending:
  assumes "createHash env algo = Some hash"
    and "dest @ ''.lock'' \<notin> locks w"
    and "fs w (dest @ ''.dl'') = None \<or> (\<exists>c. fs w (dest @ ''.dl'') = Some (File c))"
    and "fst (httpsGetWithRange env url 0 noOptions w) = Inr res"
    and "Compromised \<in> set (body res)"
  shows "(fst (eagerAcquireLockAndDownload env url dest algo hex w) = Inl Aborted
          \<or> fst (eagerAcquireLockAndDownload env url dest algo hex w) = Inl StreamFailure)
    \<and> fs (snd (eagerAcquireLockAndDownload env url dest algo hex w)) (dest @ ''.dl'')
        = Some (File (concat (chunks (takeWhile (\<lambda>e. e \<noteq> Compromised) (body res)))))
    \<and> fs (snd (eagerAcquireLockAndDownload env url dest algo hex w)) dest = fs w dest
    \<and> EvUnlink (dest @ ''.dl'') \<notin> set (added w (snd (eagerAcquireLockAndDownload env url dest algo hex w)))
    \<and> EvRename (dest @ ''.dl'') dest \<notin> set (added w (snd (eagerAcquireLockAndDownload env url dest algo hex w)))"
proof -
  let ?P = "dest @ ''.dl''" and ?L = "dest @ ''.lock''"
  from eager_setup [OF assms(1-3), of url hex]
  obtain w2 where w2_fs: "fs w2 = (fs w)(?P \<mapsto> File [])"
    and w2_tr: "trace w2 = trace w @ [EvLock ?L, EvOpen ?P]"
    and red: "\<And>r w3. downloadWithResume env url ?P 0 False hash hex ?P w2 = (r, w3) \<Longrightarrow>
          eagerAcquireLockAndDownload env url dest algo hex w =
           (case r of
              Inl e \<Rightarrow> (Inl e, release ?L w3)
            | Inr res \<Rightarrow> renameSync ?P dest (release ?L w3))"
    by blast
  have f2: "fs w2 ?P = Some (File [])" by (simp add: w2_fs)
  have r2: "fst (httpsGetWithRange env url (length ([] :: string)) noOptions w2) = Inr res"
    using assms(4) httpsGetWithRange_outcome_world [of env url 0 noOptions w2 w] by simp
  from downloadWithResume_compromised [where hash = hash and hex = hex and c = "[]", OF f2 r2 assms(5)]
  obtain e w3 evs where d: "downloadWithResume env url ?P 0 False hash hex ?P w2 = (Inl e, w3)"
    and e: "e = Aborted \<or> e = StreamFailure"
    and w3_fs: "fs w3 = (fs w2)(?P \<mapsto> File (concat (chunks (takeWhile (\<lambda>e. e \<noteq> Compromised) (body res)))))"
    and w3_tr: "trace w3 = trace w2 @ evs"
    and evs: "\<forall>e \<in> set evs. isRequest e \<or> (\<exists>p n. e = EvWrite ?P p n)"
    by auto
  have out: "eagerAcquireLockAndDownload env url dest algo hex w = (Inl e, release ?L w3)"
    using red [OF d] by simp
  have tr: "trace (release ?L w3) = trace w @ ([EvLock ?L, EvOpen ?P] @ evs @ [EvRelease ?L])"
    by (simp add: release_def emit_def w3_tr w2_tr)
  have no: "EvRename ?P dest \<notin> set evs" "EvUnlink ?P \<notin> set evs" using evs by fastforce+
  show ?thesis
    unfolding out using no e by (simp add: added_append [OF tr]) (simp add: release_def emit_def w3_fs w2_fs)
qed

theorem compromised_lock_keeps_pending_witness:
  "(fst (eagerAcquireLockAndDownload demoEnv ''https://b/cut'' ''/r/bin'' ''sha256'' ''85'' emptyWorld) = Inl Aborted
    \<or> fst (eagerAcquireLockAndDownload demoEnv ''https://b/cut'' ''/r/bin'' ''sha256'' ''85'' emptyWorld) = Inl StreamFailure)
   \<and> fs (snd (eagerAcquireLockAndDownload demoEnv ''https://b/cut'' ''/r/bin'' ''sha256'' ''85'' emptyWorld))
        ''/r/bin.dl'' = Some (File ''abc'')
   \<and> fs (snd (eagerAcquireLockAndDownload demoEnv ''https://b/cut'' ''/r/bin'' ''sha256'' ''85'' emptyWorld))
        ''/r/bin'' = None"
proof -
  let ?res = "\<lparr>statusCode = Some 200, location = None,
                body = [Data ''abc'', Compromised, Data ''def''], finish = End\<rparr>"
  have h1: "createHash demoEnv ''sha256'' = Some demoHash" by simp
  have h2: "''/r/bin'' @ ''.lock'' \<notin> locks emptyWorld" by (simp add: emptyWorld_def)
  have h3: "fs emptyWorld (''/r/bin'' @ ''.dl'') = None \<or> (\<exists>c. fs emptyWorld (''/r/bin'' @ ''.dl'') = Some (File c))"
    by (simp add: emptyWorld_def)
  have "httpsGetWithRange demoEnv ''https://b/cut'' 0 noOptions emptyWorld =
      (Inr ?res, emit (EvRequest ''https://b/cut'' [(''Range'', ''bytes=0-'')]) emptyWorld)"
    by (rule demo_fetch_direct) (simp_all add: demoServer_def LATEST_API_def)
  then have h4: "fst (httpsGetWithRange demoEnv ''https://b/cut'' 0 noOptions emptyWorld) = Inr ?res"
    by simp
  have h5: "Compromised \<in> set (body ?res)" by simp
  from compromised_lock_keeps_pending [OF h1 h2 h3 h4 h5, of "''85''"]
  show ?thesis by (simp add: emptyWorld_def)
qed




section \<open>Claims about the update scheduler\<close>

lemma resolve_plain:
  "f p = Some (File c) \<Longrightarrow> resolve n f p = Inr p"
  "f p = Some Dir \<Longrightarrow> resolve n f p = Inr p"
  "f p = None \<Longrightarrow> resolve n f p = Inl (FsError ''ENOENT'' p)"
  by (cases n; simp)+

lemma realpathSync_cases:
  "fs w p = Some (File c) \<Longrightarrow> realpathSync p w = Inr p"
  "fs w p = Some Dir \<Longrightarrow> realpathSync p w = Inr p"
  "fs w p = None \<Longrightarrow> realpathSync p w = Inl (FsError ''ENOENT'' p)"
  "fs w p = Some (Symlink t) \<Longrightarrow> fs w t = Some (File c) \<Longrightarrow> realpathSync p w = Inr t"
  "fs w p = Some (Symlink t) \<Longrightarrow> fs w t = None \<Longrightarrow> realpathSync p w = Inl (FsError ''ENOENT'' t)"
  by (simp_all add: realpathSync_def eval_nat_numeral resolve_plain)

lemma readFileSync_cases:
  "fs w p = None \<Longrightarrow> readFileSync p w = Inl (FsError ''ENOENT'' p)"
  "fs w p = Some Dir \<Longrightarrow> readFileSync p w = Inl (FsError ''EISDIR'' p)"
  "fs w p = Some (File c) \<Longrightarrow> readFileSync p w = Inr c"
  by (simp_all add: readFileSync_def realpathSync_cases)

text \<open>
  C10. The deadline counts as reached exactly when the \<open>next-check\<close> file cannot be read,
  or its trimmed content does not parse as a date, or the current time is strictly
  greater than the parsed instant. In particular a missing file and a directory in its
  place give \<open>true\<close>; the function has no failing outcome.
\<close>

theorem deadline_reached_iff:
  "(shouldCheckForUpdate env w =
      ((\<exists>e. readFileSync (NEXT_CHECK_PATH env) w = Inl e)
       \<or> (\<exists>content. readFileSync (NEXT_CHECK_PATH env) w = Inr content
             \<and> (Date_parse env (trim content) = None
                \<or> (\<exists>nextCheck. Date_parse env (trim content) = Some nextCheck \<and> now w > nextCheck)))))
   \<and> (fs w (NEXT_CHECK_PATH env) = None \<longrightarrow> shouldCheckForUpdate env w)
   \<and> (fs w (NEXT_CHECK_PATH env) = Some Dir \<longrightarrow> shouldCheckForUpdate env w)
   \<and> (fs w (NEXT_CHECK_PATH env) = Some (File content) \<longrightarrow>
        shouldCheckForUpdate env w =
          (case Date_parse env (trim content) of None \<Rightarrow> True | Some nextCheck \<Rightarrow> now w > nextCheck))"
  by (auto simp: shouldCheckForUpdate_def readFileSync_cases split: sum.splits option.splits)

lemma demo_paths [simp]:
  "NEXT_CHECK_PATH demoEnv = ''/r/.sfw-cache/next-check''"
  "LATEST_SYMLINK_PATH demoEnv = ''/r/.sfw-cache/latest''"
  by (simp_all add: NEXT_CHECK_PATH_def LATEST_SYMLINK_PATH_def NEXT_CHECK_FILE_def path_join_def demoEnv_def)

lemma demo_Date_parse [simp]:
  "Date_parse demoEnv s = (if s = ''2026-01-01T00:00:00.000Z'' then Some 1767225600000
                          else if s = ''2026-01-03T00:00:00.000Z'' then Some 1767398400000
                          else None)"
  by (simp add: demoEnv_def)

lemma cachedWorld_next_check [simp]:
  "fs (cachedWorld d) ''/r/.sfw-cache/next-check'' = Some (File d)"
  "now (cachedWorld d) = 1767312000000"
  by (simp_all add: cachedWorld_def)

theorem deadline_reached_iff_witness:
  "shouldCheckForUpdate demoEnv (cachedWorld ''2026-01-01T00:00:00.000Z'')
   \<and> \<not> shouldCheckForUpdate demoEnv (cachedWorld ''  2026-01-03T00:00:00.000Z  '')
   \<and> shouldCheckForUpdate demoEnv (cachedWorld ''tomorrow'')
   \<and> shouldCheckForUpdate demoEnv emptyWorld"
proof -
  have "fs emptyWorld (NEXT_CHECK_PATH demoEnv) = None" by (simp add: emptyWorld_def)
  with deadline_reached_iff [where env = demoEnv and w = emptyWorld]
  have "shouldCheckForUpdate demoEnv emptyWorld" by blast
  moreover
  have "fs (cachedWorld d) (NEXT_CHECK_PATH demoEnv) = Some (File d)" for d by simp
  with deadline_reached_iff [where env = demoEnv]
  have *: "shouldCheckForUpdate demoEnv (cachedWorld d) =
      (case Date_parse demoEnv (trim d) of None \<Rightarrow> True | Some nextCheck \<Rightarrow> now (cachedWorld d) > nextCheck)" for d
    by blast
  have "shouldCheckForUpdate demoEnv (cachedWorld ''2026-01-01T00:00:00.000Z'')"
    unfolding * by (simp add: trim_def trimStart_def trimEnd_def strip.simps whiteSpace_def)
  moreover have "\<not> shouldCheckForUpdate demoEnv (cachedWorld ''  2026-01-03T00:00:00.000Z  '')"
    unfolding * by (simp add: trim_def trimStart_def trimEnd_def strip.simps whiteSpace_def)
  moreover have "shouldCheckForUpdate demoEnv (cachedWorld ''tomorrow'')"
    unfolding * by (simp add: trim_def trimStart_def trimEnd_def strip.simps whiteSpace_def)
  ultimately show ?thesis by blast
qed

text \<open>
  C6. With a supported platform, a valid cached entry and a \<open>next-check\<close> file whose
  instant the clock has not passed, \<open>ensureLatestBinary\<close> returns the cached entry and
  leaves the world as it was: no request is issued and nothing is written.
\<close>

theorem fresh_deadline_no_network:
  assumes "expectedAssetName env = Inr assetName"
    and "findValidCachedReleaseSync env w = Some cached" and "cached \<noteq> []"
    and "readFileSync (NEXT_CHECK_PATH env) w = Inr content"
    and "Date_parse env (trim content) = Some nextCheck"
    and "now w \<le> nextCheck"
  shows "ensureLatestBinary env w = (Inr \<lparr>tag = ''cached'', bin = cached\<rparr>, w)
    \<and> filter isRequest (added w (snd (ensureLatestBinary env w))) = []"
proof -
  have "\<not> shouldCheckForUpdate env w"
    using assms(4-6) by (simp add: shouldCheckForUpdate_def)
  then have "ensureLatestBinary env w = (Inr \<lparr>tag = ''cached'', bin = cached\<rparr>, w)"
    using assms(1-3) by (simp add: ensureLatestBinary_def truthy_def)
  then show ?thesis by simp
qed

lemma cachedWorld_latest:
  "findValidCachedReleaseSync demoEnv (cachedWorld d) = Some ''/r/.sfw-cache/v1/sfw-free-linux-x86_64''"
proof -
  have l: "fs (cachedWorld d) ''/r/.sfw-cache/latest'' = Some (Symlink ''/r/.sfw-cache/v1/sfw-free-linux-x86_64'')"
    and b: "fs (cachedWorld d) ''/r/.sfw-cache/v1/sfw-free-linux-x86_64'' = Some (File ''old'')"
    by (simp_all add: cachedWorld_def)
  have r: "realpathSync ''/r/.sfw-cache/latest'' (cachedWorld d) = Inr ''/r/.sfw-cache/v1/sfw-free-linux-x86_64''"
    by (rule realpathSync_cases(4) [OF l b])
  have r': "realpathSync ''/r/.sfw-cache/v1/sfw-free-linux-x86_64'' (cachedWorld d) = Inr ''/r/.sfw-cache/v1/sfw-free-linux-x86_64''"
    by (rule realpathSync_cases(1) [OF b])
  show ?thesis
    by (simp add: findValidCachedReleaseSync_def existsSync_def r r')
qed

lemma demo_asset_name: "expectedAssetName demoEnv = Inr ''sfw-free-linux-x86_64''"
  by (simp add: expectedAssetName_def mapPlatform_def mapArch_def demoEnv_def)

theorem fresh_deadline_no_network_witness:
  "ensureLatestBinary demoEnv (cachedWorld ''2026-01-03T00:00:00.000Z'')
     = (Inr \<lparr>tag = ''cached'', bin = ''/r/.sfw-cache/v1/sfw-free-linux-x86_64''\<rparr>,
        cachedWorld ''2026-01-03T00:00:00.000Z'')
   \<and> filter isRequest (added (cachedWorld ''2026-01-03T00:00:00.000Z'')
        (snd (ensureLatestBinary demoEnv (cachedWorld ''2026-01-03T00:00:00.000Z'')))) = []"
proof -
  have h4: "readFileSync (NEXT_CHECK_PATH demoEnv) (cachedWorld ''2026-01-03T00:00:00.000Z'')
      = Inr ''2026-01-03T00:00:00.000Z''"
    by (simp add: readFileSync_cases)
  have h5: "Date_parse demoEnv (trim ''2026-01-03T00:00:00.000Z'') = Some 1767398400000"
    by (simp add: trim_def trimStart_def trimEnd_def strip.simps whiteSpace_def)
  have h6: "now (cachedWorld ''2026-01-03T00:00:00.000Z'') \<le> 1767398400000" by simp
  show ?thesis
    by (rule fresh_deadline_no_network [OF demo_asset_name cachedWorld_latest _ h4 h5 h6]) simp
qed




section \<open>Claims about digest parsing\<close>

lemma split_takeWhile:
  "split c s = takeWhile (\<lambda>x. x \<noteq> c) s #
     (if c \<in> set s then split c (drop 1 (dropWhile (\<lambda>x. x \<noteq> c) s)) else [])"
  by (induction s) auto

text \<open>What \<open>strip\<close> takes away are tokens, and what it leaves starts with none.\<close>

lemma strip_None:
  "find (\<lambda>t. t \<noteq> [] \<and> take (length t) s = t) toks = None \<Longrightarrow> strip toks s = s"
  by (subst strip.simps) simp

lemma strip_Some:
  "find (\<lambda>t. t \<noteq> [] \<and> take (length t) s = t) toks = Some t \<Longrightarrow>
   strip toks s = strip toks (drop (length t) s)"
  by (subst strip.simps) simp

lemma strip_decomp:
  "\<exists>ts. set ts \<subseteq> set toks \<and> s = concat ts @ strip toks s"
proof (induction toks s rule: strip.induct)
  case (1 toks s)
  show ?case
  proof (cases "find (\<lambda>t. t \<noteq> [] \<and> take (length t) s = t) toks")
    case None
    then have "strip toks s = s" by (rule strip_None)
    then show ?thesis by (intro exI [of _ "[]"]) simp
  next
    case (Some t)
    then have t: "t \<in> set toks" "take (length t) s = t"
      by (auto simp: find_Some_iff)
    from 1 [OF Some] obtain ts where ts: "set ts \<subseteq> set toks"
      "drop (length t) s = concat ts @ strip toks (drop (length t) s)" by blast
    have "s = take (length t) s @ drop (length t) s" by simp
    then have "s = t @ concat ts @ strip toks (drop (length t) s)"
      using t(2) ts(2) by simp
    then have "s = concat (t # ts) @ strip toks s"
      using strip_Some [OF Some] by simp
    moreover have "set (t # ts) \<subseteq> set toks" using t(1) ts(1) by simp
    ultimately show ?thesis by blast
  qed
qed

lemma strip_no_prefix:
  "t \<in> set toks \<Longrightarrow> t \<noteq> [] \<Longrightarrow> strip toks s \<noteq> t @ r"
proof (induction toks s rule: strip.induct)
  case (1 toks s)
  show ?case
  proof (cases "find (\<lambda>t. t \<noteq> [] \<and> take (length t) s = t) toks")
    case None
    then have "\<not> (t \<noteq> [] \<and> take (length t) s = t)"
      using 1(2) by (auto simp: find_None_iff)
    then have "s \<noteq> t @ r" using 1(3) by auto
    then show ?thesis using strip_None [OF None] by simp
  next
    case (Some u)
    from 1(1) [OF Some 1(2,3)] show ?thesis
      using strip_Some [OF Some] by simp
  qed
qed

lemma whiteSpace_nonempty: "t \<in> set whiteSpace \<Longrightarrow> t \<noteq> []"
  by (auto simp: whiteSpace_def)

lemma whiteSpace_no_colon: "t \<in> set whiteSpace \<Longrightarrow> CHR '':'' \<notin> set t"
  by (auto simp: whiteSpace_def)

lemma trimEnd_decomp:
  "\<exists>us. set us \<subseteq> set whiteSpace \<and> s = trimEnd s @ concat us"
proof -
  obtain ts where ts: "set ts \<subseteq> set (map rev whiteSpace)"
    "rev s = concat ts @ strip (map rev whiteSpace) (rev s)"
    using strip_decomp by blast
  have "s = rev (rev s)" by simp
  also have "\<dots> = rev (strip (map rev whiteSpace) (rev s)) @ rev (concat ts)"
    by (subst ts(2)) simp
  also have "\<dots> = trimEnd s @ concat (map rev (rev ts))"
    by (simp add: trimEnd_def rev_concat)
  finally have "s = trimEnd s @ concat (map rev (rev ts))" .
  moreover have "set (map rev (rev ts)) \<subseteq> set whiteSpace"
    using ts(1) by auto
  ultimately show ?thesis by blast
qed

text \<open>
  \<open>trim\<close> takes white space off both ends, and nothing else; what is left neither starts
  nor ends with white space.
\<close>

lemma trim_decomp:
  "\<exists>ts us. set ts \<subseteq> set whiteSpace \<and> set us \<subseteq> set whiteSpace \<and> s = concat ts @ trim s @ concat us"
proof -
  obtain ts where ts: "set ts \<subseteq> set whiteSpace" "s = concat ts @ trimStart s"
    unfolding trimStart_def using strip_decomp by blast
  obtain us where us: "set us \<subseteq> set whiteSpace" "trimStart s = trimEnd (trimStart s) @ concat us"
    using trimEnd_decomp by blast
  have "s = concat ts @ trim s @ concat us"
    unfolding trim_def using ts(2) us(2) by simp
  with ts(1) us(1) show ?thesis by blast
qed

lemma trim_no_suffix:
  assumes "t \<in> set whiteSpace"
  shows "trim s \<noteq> r @ t"
proof
  assume "trim s = r @ t"
  then have "strip (map rev whiteSpace) (rev (trimStart s)) = rev t @ rev r"
    unfolding trim_def trimEnd_def by (metis rev_append rev_rev_ident)
  moreover have "rev t \<in> set (map rev whiteSpace)" "rev t \<noteq> []"
    using assms whiteSpace_nonempty by auto
  ultimately show False using strip_no_prefix by blast
qed

lemma trim_no_prefix:
  assumes "t \<in> set whiteSpace"
  shows "trim s \<noteq> t @ r"
proof
  assume a: "trim s = t @ r"
  obtain us where "trimStart s = trimEnd (trimStart s) @ concat us"
    using trimEnd_decomp by blast
  then have "strip whiteSpace s = t @ (r @ concat us)"
    using a by (simp add: trim_def trimStart_def)
  then show False
    using strip_no_prefix [OF assms whiteSpace_nonempty [OF assms]] by blast
qed

lemma colon_in_trim: "(CHR '':'' \<in> set (trim s)) = (CHR '':'' \<in> set s)"
proof -
  obtain ts us where d: "set ts \<subseteq> set whiteSpace" "set us \<subseteq> set whiteSpace"
    "s = concat ts @ trim s @ concat us"
    using trim_decomp by blast
  have "CHR '':'' \<notin> set (concat ts)" "CHR '':'' \<notin> set (concat us)"
    using d(1,2) whiteSpace_no_colon by auto
  then have "(CHR '':'' \<in> set (concat ts @ trim s @ concat us)) = (CHR '':'' \<in> set (trim s))"
    by simp
  with d(3) show ?thesis by simp
qed

text \<open>The lower-casing of the test environment neither makes nor removes a \<open>:\<close>.\<close>

lemma lowerChar_colon: "(lowerChar c = CHR '':'') = (c = CHR '':'')"
proof
  assume a: "lowerChar c = CHR '':''"
  show "c = CHR '':''"
  proof (cases "map_of (zip ''ABCDEFGHIJKLMNOPQRSTUVWXYZ'' ''abcdefghijklmnopqrstuvwxyz'') c")
    case None
    with a show ?thesis by (simp add: lowerChar_def)
  next
    case (Some l)
    with a have "map_of (zip ''ABCDEFGHIJKLMNOPQRSTUVWXYZ'' ''abcdefghijklmnopqrstuvwxyz'') c = Some (CHR '':'')"
      by (simp add: lowerChar_def)
    then have "(c, CHR '':'') \<in> set (zip ''ABCDEFGHIJKLMNOPQRSTUVWXYZ'' ''abcdefghijklmnopqrstuvwxyz'')"
      by (rule map_of_SomeD)
    then have "CHR '':'' \<in> set ''abcdefghijklmnopqrstuvwxyz''"
      by (rule set_zip_rightD)
    then show ?thesis by simp
  qed
next
  assume "c = CHR '':''"
  then show "lowerChar c = CHR '':''" by (simp add: lowerChar_def)
qed

lemma demo_toLowerCase [simp]: "toLowerCase demoEnv = map lowerChar"
  by (simp add: demoEnv_def)

lemma demo_lower_colon: "(CHR '':'' \<in> set (toLowerCase demoEnv s)) = (CHR '':'' \<in> set s)"
proof -
  have "(CHR '':'' = lowerChar c) = (c = CHR '':'')" for c
    using lowerChar_colon [of c] by auto
  then show ?thesis by (auto simp: image_iff)
qed

lemma splitDigest_eq:
  "splitDigest env d =
     (if CHR '':'' \<notin> set (toLowerCase env (trim d)) then None
      else if takeWhile (\<lambda>x. x \<noteq> CHR '':'') (toLowerCase env (trim d)) = []
            \<or> takeWhile (\<lambda>x. x \<noteq> CHR '':'')
                 (drop 1 (dropWhile (\<lambda>x. x \<noteq> CHR '':'') (toLowerCase env (trim d)))) = []
      then None
      else Some (takeWhile (\<lambda>x. x \<noteq> CHR '':'') (toLowerCase env (trim d)),
                 takeWhile (\<lambda>x. x \<noteq> CHR '':'')
                   (drop 1 (dropWhile (\<lambda>x. x \<noteq> CHR '':'') (toLowerCase env (trim d))))))"
  unfolding splitDigest_def
  by (subst split_takeWhile, subst split_takeWhile) simp

lemma splitDigest_no_colon:
  assumes "\<forall>s. CHR '':'' \<in> set (toLowerCase env s) \<longrightarrow> CHR '':'' \<in> set s"
    and "CHR '':'' \<notin> set d"
  shows "splitDigest env d = None"
proof -
  have "CHR '':'' \<notin> set (trim d)" using assms(2) by (simp add: colon_in_trim)
  then have "CHR '':'' \<notin> set (toLowerCase env (trim d))" using assms(1) by blast
  then show ?thesis by (simp add: splitDigest_eq)
qed

lemma splitDigest_Some_iff:
  "(splitDigest env d = Some (algo, hex)) =
     (algo \<noteq> [] \<and> hex \<noteq> [] \<and> CHR '':'' \<notin> set algo \<and> CHR '':'' \<notin> set hex
      \<and> (\<exists>rest. toLowerCase env (trim d) = algo @ '':'' @ hex @ rest
            \<and> (rest = [] \<or> hd rest = CHR '':'')))"
proof
  let ?P = "\<lambda>x. x \<noteq> CHR '':''"
  let ?n = "toLowerCase env (trim d)"
  let ?r = "drop 1 (dropWhile ?P ?n)"
  assume "splitDigest env d = Some (algo, hex)"
  then have col: "CHR '':'' \<in> set ?n" and algo: "algo = takeWhile ?P ?n" and hex: "hex = takeWhile ?P ?r"
    and ne: "algo \<noteq> []" "hex \<noteq> []"
    by (auto simp: splitDigest_eq split: if_splits)
  from col have dn: "dropWhile ?P ?n \<noteq> []" by (auto simp: dropWhile_eq_Nil_conv)
  then have "hd (dropWhile ?P ?n) = CHR '':''" using hd_dropWhile [of ?P ?n] by simp
  with dn have d1: "dropWhile ?P ?n = CHR '':'' # ?r"
    by (cases "dropWhile ?P ?n") simp_all
  have r: "?r = hex @ dropWhile ?P ?r" unfolding hex by simp
  have "?n = takeWhile ?P ?n @ dropWhile ?P ?n" by simp
  then have "?n = algo @ CHR '':'' # ?r" unfolding algo using d1 by simp
  then have "?n = algo @ CHR '':'' # (hex @ dropWhile ?P ?r)" using r by simp
  then have n: "?n = algo @ '':'' @ hex @ dropWhile ?P ?r" by simp
  have "dropWhile ?P ?r = [] \<or> hd (dropWhile ?P ?r) = CHR '':''"
    using hd_dropWhile [of ?P ?r] by auto
  with n have "\<exists>rest. ?n = algo @ '':'' @ hex @ rest \<and> (rest = [] \<or> hd rest = CHR '':'')" by blast
  moreover have "CHR '':'' \<notin> set algo" unfolding algo by (auto dest: set_takeWhileD)
  moreover have "CHR '':'' \<notin> set hex" unfolding hex by (auto dest: set_takeWhileD)
  ultimately show "algo \<noteq> [] \<and> hex \<noteq> [] \<and> CHR '':'' \<notin> set algo \<and> CHR '':'' \<notin> set hex
      \<and> (\<exists>rest. toLowerCase env (trim d) = algo @ '':'' @ hex @ rest
            \<and> (rest = [] \<or> hd rest = CHR '':''))"
    using ne by blast
next
  let ?P = "\<lambda>x. x \<noteq> CHR '':''"
  assume a: "algo \<noteq> [] \<and> hex \<noteq> [] \<and> CHR '':'' \<notin> set algo \<and> CHR '':'' \<notin> set hex
      \<and> (\<exists>rest. toLowerCase env (trim d) = algo @ '':'' @ hex @ rest
            \<and> (rest = [] \<or> hd rest = CHR '':''))"
  then obtain rest where n: "toLowerCase env (trim d) = algo @ CHR '':'' # (hex @ rest)"
    and rest: "rest = [] \<or> hd rest = CHR '':''" by auto
  have pa: "\<And>x. x \<in> set algo \<Longrightarrow> ?P x" and ph: "\<And>x. x \<in> set hex \<Longrightarrow> ?P x"
    using a by auto
  have t1: "takeWhile ?P (algo @ CHR '':'' # (hex @ rest)) = algo"
    using pa by (simp add: takeWhile_append2)
  have d1: "dropWhile ?P (algo @ CHR '':'' # (hex @ rest)) = CHR '':'' # (hex @ rest)"
    using pa by (simp add: dropWhile_append2)
  have t2: "takeWhile ?P (hex @ rest) = hex"
    using ph rest by (cases rest) (simp_all add: takeWhile_append2)
  show "splitDigest env d = Some (algo, hex)"
    using a by (simp add: splitDigest_eq n t1 d1 t2)
qed

lemma mkdirSync_cases:
  "(\<exists>w1. mkdirSync p w = (Inr (), w1) \<and> (w1 = w \<or> w1 = emit (EvMkdir p) (w\<lparr>fs := (fs w)(p \<mapsto> Dir)\<rparr>)))
   \<or> mkdirSync p w = (Inl (FsError ''EEXIST'' p), w)"
  by (auto simp: mkdirSync_def split: option.splits node.splits sum.splits)

lemma invalid_digest_stops:
  assumes "rel_name rel = Some name"
    and "findAssetUrl (rel_assets rel) assetName = Some (url, d)"
    and "splitDigest env d = None"
  shows "(mkdirSync (fst (getCachePaths env name assetName)) w = (Inr (), w1) \<longrightarrow>
           downloadAndVerifyReleaseSync env rel assetName w = (Inl InvalidDigest, w1))
       \<and> (\<exists>e. fst (downloadAndVerifyReleaseSync env rel assetName w) = Inl e)
       \<and> list_all (\<lambda>e. e = EvMkdir (fst (getCachePaths env name assetName)))
            (added w (snd (downloadAndVerifyReleaseSync env rel assetName w)))"
  using assms mkdirSync_cases [of "fst (getCachePaths env name assetName)" w]
  by (auto simp: downloadAndVerifyReleaseSync_def added_def emit_def)

lemma valid_digest_downloads:
  assumes "rel_name rel = Some name"
    and "mkdirSync (fst (getCachePaths env name assetName)) w = (Inr (), w1)"
    and "findAssetUrl (rel_assets rel) assetName = Some (url, d)"
    and "splitDigest env d = Some (algo, hex)"
    and "\<not> existsSync (snd (getCachePaths env name assetName)) w1"
  shows "fst (downloadAndVerifyReleaseSync env rel assetName w) =
           (case fst (eagerAcquireLockAndDownload env url (snd (getCachePaths env name assetName)) algo hex w1) of
              Inl e \<Rightarrow> Inl e
            | Inr u \<Rightarrow> Inr \<lparr>tag = name, bin = snd (getCachePaths env name assetName)\<rparr>)"
  using assms by (simp add: downloadAndVerifyReleaseSync_def split_beta split: sum.splits prod.splits)

text \<open>
  C9. The digest string is trimmed (white space, and white space only, is taken off both
  ends, so that what is left neither starts nor ends with white space), lower-cased and
  cut at the \<open>:\<close> characters. A digest string without \<open>:\<close> does not parse (lower-casing
  makes no \<open>:\<close>), and neither does one whose algorithm part or hex part is empty; in these
  cases \<open>downloadAndVerifyReleaseSync\<close> fails (with the invalid-digest error once the cache
  directory is there) having done nothing but create the cache directory: no lock, no
  pending file, no request. The string parses to \<open>(algo, hex)\<close> exactly when the trimmed,
  lower-cased string is \<open>algo:hex\<close> or \<open>algo:hex:...\<close> with both parts non-empty and free of
  \<open>:\<close>, and these are what the download is called with.
\<close>

theorem malformed_digest_rejected:
  "((\<forall>s. CHR '':'' \<in> set (toLowerCase env s) \<longrightarrow> CHR '':'' \<in> set s) \<and> CHR '':'' \<notin> set d
       \<longrightarrow> splitDigest env d = None)
   \<and> ((splitDigest env d = None) =
        (CHR '':'' \<notin> set (toLowerCase env (trim d))
         \<or> takeWhile (\<lambda>x. x \<noteq> CHR '':'') (toLowerCase env (trim d)) = []
         \<or> takeWhile (\<lambda>x. x \<noteq> CHR '':'')
              (drop 1 (dropWhile (\<lambda>x. x \<noteq> CHR '':'') (toLowerCase env (trim d)))) = []))
   \<and> ((splitDigest env d = Some (algo, hex)) =
        (algo \<noteq> [] \<and> hex \<noteq> [] \<and> CHR '':'' \<notin> set algo \<and> CHR '':'' \<notin> set hex
         \<and> (\<exists>rest. toLowerCase env (trim d) = algo @ '':'' @ hex @ rest
               \<and> (rest = [] \<or> hd rest = CHR '':''))))
   \<and> (\<exists>ts us. set ts \<subseteq> set whiteSpace \<and> set us \<subseteq> set whiteSpace
         \<and> d = concat ts @ trim d @ concat us)
   \<and> (\<forall>t \<in> set whiteSpace. \<forall>r. trim d \<noteq> t @ r \<and> trim d \<noteq> r @ t)
   \<and> ((CHR '':'' \<in> set (trim d)) = (CHR '':'' \<in> set d))
   \<and> (rel_name rel = Some name \<and> findAssetUrl (rel_assets rel) assetName = Some (url, d)
        \<and> splitDigest env d = None \<longrightarrow>
        (mkdirSync (fst (getCachePaths env name assetName)) w = (Inr (), w1) \<longrightarrow>
           downloadAndVerifyReleaseSync env rel assetName w = (Inl InvalidDigest, w1))
        \<and> (\<exists>e. fst (downloadAndVerifyReleaseSync env rel assetName w) = Inl e)
        \<and> list_all (\<lambda>e. e = EvMkdir (fst (getCachePaths env name assetName)))
             (added w (snd (downloadAndVerifyReleaseSync env rel assetName w))))
   \<and> (rel_name rel = Some name
        \<and> mkdirSync (fst (getCachePaths env name assetName)) w = (Inr (), w1)
        \<and> findAssetUrl (rel_assets rel) assetName = Some (url, d)
        \<and> splitDigest env d = Some (algo, hex)
        \<and> \<not> existsSync (snd (getCachePaths env name assetName)) w1 \<longrightarrow>
        fst (downloadAndVerifyReleaseSync env rel assetName w) =
           (case fst (eagerAcquireLockAndDownload env url (snd (getCachePaths env name assetName)) algo hex w1) of
              Inl e \<Rightarrow> Inl e
            | Inr u \<Rightarrow> Inr \<lparr>tag = name, bin = snd (getCachePaths env name assetName)\<rparr>))"
proof -
  have a: "(\<forall>s. CHR '':'' \<in> set (toLowerCase env s) \<longrightarrow> CHR '':'' \<in> set s) \<and> CHR '':'' \<notin> set d
       \<longrightarrow> splitDigest env d = None"
    using splitDigest_no_colon [of env d] by blast
  have b: "(splitDigest env d = None) =
        (CHR '':'' \<notin> set (toLowerCase env (trim d))
         \<or> takeWhile (\<lambda>x. x \<noteq> CHR '':'') (toLowerCase env (trim d)) = []
         \<or> takeWhile (\<lambda>x. x \<noteq> CHR '':'')
              (drop 1 (dropWhile (\<lambda>x. x \<noteq> CHR '':'') (toLowerCase env (trim d)))) = [])"
    by (simp add: splitDigest_eq)
  have c: "(splitDigest env d = Some (algo, hex)) =
        (algo \<noteq> [] \<and> hex \<noteq> [] \<and> CHR '':'' \<notin> set algo \<and> CHR '':'' \<notin> set hex
         \<and> (\<exists>rest. toLowerCase env (trim d) = algo @ '':'' @ hex @ rest
               \<and> (rest = [] \<or> hd rest = CHR '':'')))"
    by (rule splitDigest_Some_iff)
  have t1: "\<exists>ts us. set ts \<subseteq> set whiteSpace \<and> set us \<subseteq> set whiteSpace
         \<and> d = concat ts @ trim d @ concat us"
    by (rule trim_decomp)
  have t2: "\<forall>t \<in> set whiteSpace. \<forall>r. trim d \<noteq> t @ r \<and> trim d \<noteq> r @ t"
    using trim_no_prefix trim_no_suffix by blast
  have t3: "(CHR '':'' \<in> set (trim d)) = (CHR '':'' \<in> set d)"
    by (rule colon_in_trim)
  have d: "rel_name rel = Some name \<and> findAssetUrl (rel_assets rel) assetName = Some (url, d)
        \<and> splitDigest env d = None \<longrightarrow>
        (mkdirSync (fst (getCachePaths env name assetName)) w = (Inr (), w1) \<longrightarrow>
           downloadAndVerifyReleaseSync env rel assetName w = (Inl InvalidDigest, w1))
        \<and> (\<exists>e. fst (downloadAndVerifyReleaseSync env rel assetName w) = Inl e)
        \<and> list_all (\<lambda>e. e = EvMkdir (fst (getCachePaths env name assetName)))
             (added w (snd (downloadAndVerifyReleaseSync env rel assetName w)))"
    using invalid_digest_stops [of rel name assetName url d env w w1] by blast
  have e: "rel_name rel = Some name
        \<and> mkdirSync (fst (getCachePaths env name assetName)) w = (Inr (), w1)
        \<and> findAssetUrl (rel_assets rel) assetName = Some (url, d)
        \<and> splitDigest env d = Some (algo, hex)
        \<and> \<not> existsSync (snd (getCachePaths env name assetName)) w1 \<longrightarrow>
        fst (downloadAndVerifyReleaseSync env rel assetName w) =
           (case fst (eagerAcquireLockAndDownload env url (snd (getCachePaths env name assetName)) algo hex w1) of
              Inl e \<Rightarrow> Inl e
            | Inr u \<Rightarrow> Inr \<lparr>tag = name, bin = snd (getCachePaths env name assetName)\<rparr>)"
    using valid_digest_downloads [of rel name env assetName w w1 url d algo hex] by blast
  from a b c t1 t2 t3 d e show ?thesis by (intro conjI)
qed

text \<open>
  On the test environment: a string without \<open>:\<close>, one with an empty algorithm and one
  with an empty hex part do not parse; a string in upper case between a no-break space
  (U+00A0), spaces and a line separator (U+2028) parses to its lower-cased parts; and a
  release whose asset has a digest without \<open>:\<close> is refused.
\<close>

theorem malformed_digest_rejected_witness:
  "splitDigest demoEnv ''sha256abcd'' = None
   \<and> splitDigest demoEnv '':abcd'' = None
   \<and> splitDigest demoEnv ''sha256:'' = None
   \<and> splitDigest demoEnv
        ([CHR 0xC2, CHR 0xA0] @ '' SHA256:AbCd '' @ [CHR 0xE2, CHR 0x80, CHR 0xA8])
       = Some (''sha256'', ''abcd'')
   \<and> fst (downloadAndVerifyReleaseSync demoEnv
            \<lparr>rel_tag = Some ''v2'', rel_name = Some ''v2'',
              rel_assets = [\<lparr>asset_name = ''sfw'', browser_download_url = ''https://a/sfw'',
                              digest = ''sha256abcd''\<rparr>]\<rparr>
            ''sfw'' emptyWorld) = Inl InvalidDigest"
proof -
  let ?rel = "\<lparr>rel_tag = Some ''v2'', rel_name = Some ''v2'',
              rel_assets = [\<lparr>asset_name = ''sfw'', browser_download_url = ''https://a/sfw'',
                              digest = ''sha256abcd''\<rparr>]\<rparr>"
  let ?w1 = "emit (EvMkdir ''/r/.sfw-cache/v2'') (emptyWorld\<lparr>fs := (fs emptyWorld)(''/r/.sfw-cache/v2'' \<mapsto> Dir)\<rparr>)"
  let ?padded = "[CHR 0xC2, CHR 0xA0] @ '' SHA256:AbCd '' @ [CHR 0xE2, CHR 0x80, CHR 0xA8]"
  note t1 = malformed_digest_rejected [where d = "''sha256abcd''" and rel = ?rel and name = "''v2''"
      and assetName = "''sfw''" and url = "''https://a/sfw''" and env = demoEnv and w = emptyWorld and ?w1.0 = ?w1]
  note t2 = malformed_digest_rejected [where d = ?padded and env = demoEnv
      and algo = "''sha256''" and hex = "''abcd''"]
  note t3 = malformed_digest_rejected [where d = "'':abcd''" and env = demoEnv]
  note t4 = malformed_digest_rejected [where d = "''sha256:''" and env = demoEnv]
  have lc: "\<forall>s. CHR '':'' \<in> set (toLowerCase demoEnv s) \<longrightarrow> CHR '':'' \<in> set s"
    by (simp only: demo_lower_colon) simp
  have n: "CHR '':'' \<notin> set ''sha256abcd''" by simp
  from t1 lc n have s1: "splitDigest demoEnv ''sha256abcd'' = None" by blast
  have "toLowerCase demoEnv (trim ?padded) = ''sha256'' @ '':'' @ ''abcd'' @ []"
    by (simp add: trim_def trimStart_def trimEnd_def strip.simps whiteSpace_def lowerChar_def)
  then have "''sha256'' \<noteq> [] \<and> ''abcd'' \<noteq> [] \<and> CHR '':'' \<notin> set ''sha256'' \<and> CHR '':'' \<notin> set ''abcd''
         \<and> (\<exists>rest. toLowerCase demoEnv (trim ?padded) = ''sha256'' @ '':'' @ ''abcd'' @ rest
               \<and> (rest = [] \<or> hd rest = CHR '':''))"
    by (intro conjI exI [of _ "[]"]) simp_all
  with t2 have s2: "splitDigest demoEnv ?padded = Some (''sha256'', ''abcd'')" by blast
  have "takeWhile (\<lambda>x. x \<noteq> CHR '':'') (toLowerCase demoEnv (trim '':abcd'')) = []"
    by (simp add: trim_def trimStart_def trimEnd_def strip.simps whiteSpace_def lowerChar_def)
  with t3 have s3: "splitDigest demoEnv '':abcd'' = None" by blast
  have "takeWhile (\<lambda>x. x \<noteq> CHR '':'')
          (drop 1 (dropWhile (\<lambda>x. x \<noteq> CHR '':'') (toLowerCase demoEnv (trim ''sha256:'')))) = []"
    by (simp add: trim_def trimStart_def trimEnd_def strip.simps whiteSpace_def lowerChar_def)
  with t4 have s4: "splitDigest demoEnv ''sha256:'' = None" by blast
  have h1: "rel_name ?rel = Some ''v2''" by simp
  have h2: "findAssetUrl (rel_assets ?rel) ''sfw'' = Some (''https://a/sfw'', ''sha256abcd'')"
    by (simp add: findAssetUrl_def)
  have h3: "mkdirSync (fst (getCachePaths demoEnv ''v2'' ''sfw'')) emptyWorld = (Inr (), ?w1)"
    by (simp add: mkdirSync_def getCachePaths_def path_join_def demoEnv_def emptyWorld_def)
  from t1 h1 h2 s1 h3
  have "downloadAndVerifyReleaseSync demoEnv ?rel ''sfw'' emptyWorld = (Inl InvalidDigest, ?w1)"
    by blast
  then have "fst (downloadAndVerifyReleaseSync demoEnv ?rel ''sfw'' emptyWorld) = Inl InvalidDigest"
    by simp
  with s1 s2 s3 s4 show ?thesis by blast
qed

section \<open>Claims about publishing\<close>

lemma removeSymlink_cases:
  "fs w p = None \<Longrightarrow> removeSymlink p w = (Inr (), w)"
  "fs w p = Some (Symlink t) \<Longrightarrow> removeSymlink p w = (Inr (), emit (EvUnlink p) (w\<lparr>fs := (fs w)(p := None)\<rparr>))"
  "fs w p = Some (File c) \<Longrightarrow> removeSymlink p w = (Inr (), emit (EvUnlink p) (w\<lparr>fs := (fs w)(p := None)\<rparr>))"
  "fs w p = Some Dir \<Longrightarrow> removeSymlink p w = (Inl (FsError ''EISDIR'' p), w)"
  by (simp_all add: removeSymlink_def lstatSync_def unlinkSync_def isENOENT_def)

lemma removeSymlink_trace:
  "\<exists>evs. trace (snd (removeSymlink p w)) = trace w @ evs \<and> (evs = [] \<or> evs = [EvUnlink p])"
  by (cases "fs w p"; cases "the (fs w p)") (auto simp: removeSymlink_cases emit_def)

lemma symlinkSync_trace:
  "\<exists>evs. trace (snd (symlinkSync t p w)) = trace w @ evs \<and> (evs = [] \<or> evs = [EvSymlink t p])"
  by (auto simp: symlinkSync_def emit_def split: option.splits)

text \<open>
  For a callback with a primitive value \<open>swallowError\<close> gives \<open>null\<close>, whatever the callback
  returned; its effects stay.
\<close>

lemma swallowError_Primitive: "swallowError Primitive cb w = (None, snd (cb w))"
  by (cases "cb w") (auto simp: swallowError_def split: sum.splits)

text \<open>
  So \<open>previousBin\<close> is \<open>null\<close> in every run, the removal of the previous release's
  directory is never reached, and \<open>trySymlinkLatest\<close> comes down to unlinking the pointer
  and creating it anew.
\<close>

lemma trySymlinkLatest_eq:
  "trySymlinkLatest env assetPath w =
     (case removeSymlink (LATEST_SYMLINK_PATH env) w of
        (Inl e, w1) \<Rightarrow> w1
      | (Inr u, w1) \<Rightarrow> snd (symlinkSync assetPath (LATEST_SYMLINK_PATH env) w1))"
  by (simp add: trySymlinkLatest_def swallowError_Primitive truthy_def)

lemma trySymlinkLatest_effects:
  "\<exists>e1 e2. added w (trySymlinkLatest env assetPath w) = e1 @ e2
      \<and> (e1 = [] \<or> e1 = [EvUnlink (LATEST_SYMLINK_PATH env)])
      \<and> (e2 = [] \<or> e2 = [EvSymlink assetPath (LATEST_SYMLINK_PATH env)])"
proof -
  obtain e1 where e1: "trace (snd (removeSymlink (LATEST_SYMLINK_PATH env) w)) = trace w @ e1"
    "e1 = [] \<or> e1 = [EvUnlink (LATEST_SYMLINK_PATH env)]"
    using removeSymlink_trace by blast
  define w1 where "w1 = snd (removeSymlink (LATEST_SYMLINK_PATH env) w)"
  obtain e2 where e2: "trace (snd (symlinkSync assetPath (LATEST_SYMLINK_PATH env) w1)) = trace w1 @ e2"
    "e2 = [] \<or> e2 = [EvSymlink assetPath (LATEST_SYMLINK_PATH env)]"
    using symlinkSync_trace by blast
  have out: "trySymlinkLatest env assetPath w =
      (case fst (removeSymlink (LATEST_SYMLINK_PATH env) w) of
         Inl e \<Rightarrow> w1
       | Inr u \<Rightarrow> snd (symlinkSync assetPath (LATEST_SYMLINK_PATH env) w1))"
    by (simp add: trySymlinkLatest_eq w1_def split_beta split: sum.splits prod.splits)
  show ?thesis
  proof (cases "fst (removeSymlink (LATEST_SYMLINK_PATH env) w)")
    case (Inl e)
    then have "trace (trySymlinkLatest env assetPath w) = trace w @ (e1 @ [])"
      by (simp add: out w1_def e1)
    then have "added w (trySymlinkLatest env assetPath w) = e1 @ []"
      by (rule added_append)
    with e1(2) show ?thesis by blast
  next
    case (Inr u)
    then have "trace (trySymlinkLatest env assetPath w) = trace w @ (e1 @ e2)"
      using e2(1) by (simp add: out w1_def e1)
    then have "added w (trySymlinkLatest env assetPath w) = e1 @ e2"
      by (rule added_append)
    with e1(2) e2(2) show ?thesis by blast
  qed
qed

lemma trySymlinkLatest_never_deletes:
  "EvRmTree dir \<notin> set (added w (trySymlinkLatest env assetPath w))"
  using trySymlinkLatest_effects [of w env assetPath] by auto

text \<open>
  The older copy creates the link first; \<open>symlinkSync\<close> refuses an existing path, so
  with a previous pointer in place it neither repoints nor deletes, and it never deletes
  before a repoint.
\<close>

lemma publishLegacy_order:
  "added w (publishLegacy env assetPath w) = []
   \<or> added w (publishLegacy env assetPath w) = [EvSymlink assetPath (LATEST_SYMLINK_PATH env)]"
proof (cases "fs w (LATEST_SYMLINK_PATH env)")
  case None
  then have "realpathSync (LATEST_SYMLINK_PATH env) w = Inl (FsError ''ENOENT'' (LATEST_SYMLINK_PATH env))"
    by (rule realpathSync_cases)
  with None show ?thesis
    by (simp add: publishLegacy_def symlinkSync_def added_def emit_def)
next
  case (Some n)
  then show ?thesis
    by (simp add: publishLegacy_def symlinkSync_def)
qed

lemma staleWorld_fs:
  "fs staleWorld ''/r/.sfw-cache'' = Some Dir"
  "fs staleWorld ''/r/.sfw-cache/v1'' = Some Dir"
  "fs staleWorld ''/r/.sfw-cache/latest'' = Some (Symlink ''/r/.sfw-cache/v1/sfw-free-linux-x86_64'')"
  "fs staleWorld ''/r/.sfw-cache/v1/sfw-free-linux-x86_64'' = Some (File ''old'')"
  "fs staleWorld ''/r/.sfw-cache/next-check'' = Some (File ''2026-01-01T00:00:00.000Z'')"
  "fs staleWorld ''/r/.sfw-cache/v2'' = None"
  "fs staleWorld ''/r/.sfw-cache/v2/sfw-free-linux-x86_64'' = None"
  "fs staleWorld ''/r/.sfw-cache/v2/sfw-free-linux-x86_64.dl'' = None"
  "locks staleWorld = {}" "trace staleWorld = []" "now staleWorld = 1767312000000"
  by (simp_all add: staleWorld_def)

text \<open>
  Publishing a new binary while the pointer selects another release: the pointer is
  unlinked and created anew, and nothing else changes.
\<close>

lemma demo_publish:
  assumes "fs w ''/r/.sfw-cache/latest'' = Some (Symlink t)"
  shows "trace (trySymlinkLatest demoEnv ''/r/.sfw-cache/v2/sfw-free-linux-x86_64'' w) =
           trace w @ [EvUnlink ''/r/.sfw-cache/latest'',
                      EvSymlink ''/r/.sfw-cache/v2/sfw-free-linux-x86_64'' ''/r/.sfw-cache/latest'']"
    and "fs (trySymlinkLatest demoEnv ''/r/.sfw-cache/v2/sfw-free-linux-x86_64'' w) =
           (fs w)(''/r/.sfw-cache/latest'' \<mapsto> Symlink ''/r/.sfw-cache/v2/sfw-free-linux-x86_64'')"
  using assms
  by (simp_all add: trySymlinkLatest_eq removeSymlink_cases symlinkSync_def emit_def)

text \<open>
  C4. The specification wants the pointer repointed and the previous release's directory
  deleted once the repoint has succeeded. \<open>trySymlinkLatest\<close> is written to delete that
  directory (before it touches the pointer), but the deletion is guarded by
  \<open>previousBin\<close>, which \<open>swallowError\<close> never delivers. With \<open>latest\<close> selecting release
  \<open>v1\<close>, which resolves and differs from the new path, publishing the binary of \<open>v2\<close>
  unlinks the pointer and creates it anew; the directory of \<open>v1\<close> and the binary in it
  stay. No run of \<open>trySymlinkLatest\<close> removes a directory.
\<close>

theorem trySymlinkLatest_keeps_previous_release:
  "realpathSync ''/r/.sfw-cache/latest'' staleWorld = Inr ''/r/.sfw-cache/v1/sfw-free-linux-x86_64''
   \<and> added staleWorld (trySymlinkLatest demoEnv ''/r/.sfw-cache/v2/sfw-free-linux-x86_64'' staleWorld)
       = [EvUnlink ''/r/.sfw-cache/latest'',
          EvSymlink ''/r/.sfw-cache/v2/sfw-free-linux-x86_64'' ''/r/.sfw-cache/latest'']
   \<and> fs (trySymlinkLatest demoEnv ''/r/.sfw-cache/v2/sfw-free-linux-x86_64'' staleWorld)
        ''/r/.sfw-cache/latest'' = Some (Symlink ''/r/.sfw-cache/v2/sfw-free-linux-x86_64'')
   \<and> fs (trySymlinkLatest demoEnv ''/r/.sfw-cache/v2/sfw-free-linux-x86_64'' staleWorld)
        ''/r/.sfw-cache/v1'' = Some Dir
   \<and> fs (trySymlinkLatest demoEnv ''/r/.sfw-cache/v2/sfw-free-linux-x86_64'' staleWorld)
        ''/r/.sfw-cache/v1/sfw-free-linux-x86_64'' = Some (File ''old'')
   \<and> EvRmTree dir \<notin> set (added w (trySymlinkLatest env assetPath w))"
proof -
  have r: "realpathSync ''/r/.sfw-cache/latest'' staleWorld = Inr ''/r/.sfw-cache/v1/sfw-free-linux-x86_64''"
    by (rule realpathSync_cases(4) [OF staleWorld_fs(3,4)])
  note pub = demo_publish [OF staleWorld_fs(3)]
  have "added staleWorld (trySymlinkLatest demoEnv ''/r/.sfw-cache/v2/sfw-free-linux-x86_64'' staleWorld)
       = [EvUnlink ''/r/.sfw-cache/latest'',
          EvSymlink ''/r/.sfw-cache/v2/sfw-free-linux-x86_64'' ''/r/.sfw-cache/latest'']"
    by (rule added_append) (rule pub(1))
  moreover have "EvRmTree dir \<notin> set (added w (trySymlinkLatest env assetPath w))"
    by (rule trySymlinkLatest_never_deletes)
  ultimately show ?thesis
    using r by (simp add: pub(2) staleWorld_fs)
qed

section \<open>Claims about the refresh of a cached release\<close>

text \<open>
  With a cached entry and a deadline that is reached, the result is the cached entry and
  the world at the return is the world after the whole refresh attempt: the deadline is
  written first, the attempt runs to its end whatever its outcome, and only then is the
  value returned.
\<close>

lemma ensureLatestBinary_refresh:
  assumes "expectedAssetName env = Inr assetName"
    and "findValidCachedReleaseSync env w = Some cached" and "cached \<noteq> []"
    and "shouldCheckForUpdate env w"
    and "setNextCheckTimeSync env w = (Inr (), w1)"
  shows "ensureLatestBinary env w =
           (Inr \<lparr>tag = ''cached'', bin = cached\<rparr>, snd (refreshAttempt env assetName w1))"
  using assms by (simp add: ensureLatestBinary_def truthy_def swallowError_def split_beta split: sum.splits)

lemma demo_fetchLatest:
  "fetchLatest demoEnv w =
     (Inr \<lparr>rel_tag = Some ''v2'', rel_name = Some ''v2'', rel_assets = [demoAsset]\<rparr>,
      emit (EvRequest LATEST_API [(''User-Agent'', ''sfw-free/1.0.0'')]) w)"
proof -
  let ?o = "noOptions\<lparr>userAgent := Some (USER_AGENT demoEnv)\<rparr>"
  let ?res = "\<lparr>statusCode = Some 200, location = None, body = [Data ''v2''], finish = End\<rparr>"
  have rh: "requestHeaders ?o = [(''User-Agent'', ''sfw-free/1.0.0'')]"
    by (simp add: requestHeaders_def noOptions_def spread_def USER_AGENT_def demoEnv_def)
  have v: "validURL demoEnv LATEST_API" by (simp add: LATEST_API_def)
  have s: "server demoEnv LATEST_API (requestHeaders ?o) = Response ?res"
    by (simp add: demoServer_def)
  have "httpsGet demoEnv LATEST_API ?o w = (Inr ?res, emit (EvRequest LATEST_API [(''User-Agent'', ''sfw-free/1.0.0'')]) w)"
    using httpsGet_final [where sc = 200, OF v s] by (simp add: redirectTarget_def rh)
  then show ?thesis
    by (simp add: fetchLatest_def getJSON_def getText_def demoEnv_def)
qed

lemma demo_splitDigest: "splitDigest demoEnv ''SHA256:85'' = Some (''sha256'', ''85'')"
  by (simp add: splitDigest_def trim_def trimStart_def trimEnd_def strip.simps whiteSpace_def lowerChar_def)

lemma staleWorld_latest:
  "findValidCachedReleaseSync demoEnv staleWorld = Some ''/r/.sfw-cache/v1/sfw-free-linux-x86_64''"
proof -
  have r: "realpathSync ''/r/.sfw-cache/latest'' staleWorld = Inr ''/r/.sfw-cache/v1/sfw-free-linux-x86_64''"
    by (rule realpathSync_cases(4) [OF staleWorld_fs(3,4)])
  have r': "realpathSync ''/r/.sfw-cache/v1/sfw-free-linux-x86_64'' staleWorld = Inr ''/r/.sfw-cache/v1/sfw-free-linux-x86_64''"
    by (rule realpathSync_cases(1) [OF staleWorld_fs(4)])
  show ?thesis
    by (simp add: findValidCachedReleaseSync_def existsSync_def r r')
qed

lemma demo_setNextCheck:
  "fst (setNextCheckTimeSync demoEnv staleWorld) = Inr ()"
  "fs (snd (setNextCheckTimeSync demoEnv staleWorld)) =
     (fs staleWorld)(''/r/.sfw-cache/next-check'' \<mapsto> File ''2026-01-03T00:00:00.000Z'')"
  "trace (snd (setNextCheckTimeSync demoEnv staleWorld)) = [EvWriteFile ''/r/.sfw-cache/next-check'']"
  "locks (snd (setNextCheckTimeSync demoEnv staleWorld)) = {}"
proof -
  have dn: "dirname ''/r/.sfw-cache/next-check'' = ''/r/.sfw-cache''"
    by (simp add: dirname_def)
  have mk: "mkdirSync ''/r/.sfw-cache'' staleWorld = (Inr (), staleWorld)"
    by (simp add: mkdirSync_def staleWorld_fs)
  have fl: "follow 40 (fs staleWorld) ''/r/.sfw-cache/next-check'' = Inr ''/r/.sfw-cache/next-check''"
    by (rule follow_cases(2)) (rule staleWorld_fs(5))
  have ti: "toISOString demoEnv (1767312000000 + ONE_DAY_MS) = ''2026-01-03T00:00:00.000Z''"
    by (simp add: ONE_DAY_MS_def demoEnv_def)
  have eq: "setNextCheckTimeSync demoEnv staleWorld =
      (Inr (), emit (EvWriteFile ''/r/.sfw-cache/next-check'')
                 (staleWorld\<lparr>fs := (fs staleWorld)(''/r/.sfw-cache/next-check'' \<mapsto> File ''2026-01-03T00:00:00.000Z'')\<rparr>))"
    by (simp add: setNextCheckTimeSync_def dn mk writeFileSync_def fl ti staleWorld_fs)
  show "fst (setNextCheckTimeSync demoEnv staleWorld) = Inr ()" by (simp add: eq)
  show "fs (snd (setNextCheckTimeSync demoEnv staleWorld)) =
     (fs staleWorld)(''/r/.sfw-cache/next-check'' \<mapsto> File ''2026-01-03T00:00:00.000Z'')"
    by (simp add: eq emit_def)
  show "trace (snd (setNextCheckTimeSync demoEnv staleWorld)) = [EvWriteFile ''/r/.sfw-cache/next-check'']"
    by (simp add: eq emit_def staleWorld_fs)
  show "locks (snd (setNextCheckTimeSync demoEnv staleWorld)) = {}"
    by (simp add: eq emit_def staleWorld_fs)
qed

lemma demo_cache_paths:
  "getCachePaths demoEnv ''v2'' ''sfw-free-linux-x86_64'' =
     (''/r/.sfw-cache/v2'', ''/r/.sfw-cache/v2/sfw-free-linux-x86_64'')"
  by (simp add: getCachePaths_def path_join_def demoEnv_def)

lemma existsSync_missing: "fs w p = None \<Longrightarrow> \<not> existsSync p w"
  by (simp add: existsSync_def realpathSync_cases)

lemma demo_download_from:
  assumes "dest @ ''.lock'' \<notin> locks w" and "fs w (dest @ ''.dl'') = None" and "fs w dest \<noteq> Some Dir"
  shows "fst (eagerAcquireLockAndDownload demoEnv ''https://a/sfw'' dest ''sha256'' ''85'' w) = Inr ()"
    and "trace (snd (eagerAcquireLockAndDownload demoEnv ''https://a/sfw'' dest ''sha256'' ''85'' w)) =
           trace w @ [EvLock (dest @ ''.lock''), EvOpen (dest @ ''.dl''),
                      EvRequest ''https://a/sfw'' [(''Range'', ''bytes=0-'')],
                      EvRequest ''https://b/sfw'' [(''Range'', ''bytes=0-'')],
                      EvWrite (dest @ ''.dl'') 0 3, EvWrite (dest @ ''.dl'') 3 3,
                      EvRelease (dest @ ''.lock''), EvRename (dest @ ''.dl'') dest]"
    and "fs (snd (eagerAcquireLockAndDownload demoEnv ''https://a/sfw'' dest ''sha256'' ''85'' w)) =
           (fs w)(dest @ ''.dl'' := None, dest \<mapsto> File ''abcdef'')"
  using assms
  by (simp_all add: eagerAcquireLockAndDownload_def lock_def openSync_def follow_cases emit_def getSizeOnDisk_def
      downloadWithResume_def writeSync_def pwrite_def checkIntegrity_eq contents_def fsyncSync_def
      closeSync_def release_def renameSync_def demoHash_def decimal.simps demo_fetch_redirected)

text \<open>
  C5. The specification wants the refresh attempt to run without blocking the returned
  value. \<open>ensureLatestBinary\<close> awaits it: with release \<open>v1\<close> cached and the deadline passed,
  the value (the path of the \<open>v1\<close> binary, which is still there) is returned in a world in
  which the deadline has been rewritten, the release has been resolved, and the \<open>v2\<close>
  binary has been downloaded, verified, renamed into place and selected by \<open>latest\<close>.
\<close>

theorem ensureLatestBinary_waits_for_refresh:
  "fst (ensureLatestBinary demoEnv staleWorld)
     = Inr \<lparr>tag = ''cached'', bin = ''/r/.sfw-cache/v1/sfw-free-linux-x86_64''\<rparr>
   \<and> added staleWorld (snd (ensureLatestBinary demoEnv staleWorld))
     = [EvWriteFile ''/r/.sfw-cache/next-check'',
        EvRequest LATEST_API [(''User-Agent'', ''sfw-free/1.0.0'')],
        EvMkdir ''/r/.sfw-cache/v2'',
        EvLock ''/r/.sfw-cache/v2/sfw-free-linux-x86_64.lock'',
        EvOpen ''/r/.sfw-cache/v2/sfw-free-linux-x86_64.dl'',
        EvRequest ''https://a/sfw'' [(''Range'', ''bytes=0-'')],
        EvRequest ''https://b/sfw'' [(''Range'', ''bytes=0-'')],
        EvWrite ''/r/.sfw-cache/v2/sfw-free-linux-x86_64.dl'' 0 3,
        EvWrite ''/r/.sfw-cache/v2/sfw-free-linux-x86_64.dl'' 3 3,
        EvRelease ''/r/.sfw-cache/v2/sfw-free-linux-x86_64.lock'',
        EvRename ''/r/.sfw-cache/v2/sfw-free-linux-x86_64.dl'' ''/r/.sfw-cache/v2/sfw-free-linux-x86_64'',
        EvUnlink ''/r/.sfw-cache/latest'',
        EvSymlink ''/r/.sfw-cache/v2/sfw-free-linux-x86_64'' ''/r/.sfw-cache/latest'']
   \<and> fs (snd (ensureLatestBinary demoEnv staleWorld)) ''/r/.sfw-cache/v2/sfw-free-linux-x86_64''
     = Some (File ''abcdef'')
   \<and> fs (snd (ensureLatestBinary demoEnv staleWorld)) ''/r/.sfw-cache/latest''
     = Some (Symlink ''/r/.sfw-cache/v2/sfw-free-linux-x86_64'')
   \<and> fs (snd (ensureLatestBinary demoEnv staleWorld)) ''/r/.sfw-cache/v1/sfw-free-linux-x86_64''
     = Some (File ''old'')
   \<and> fs (snd (ensureLatestBinary demoEnv staleWorld)) ''/r/.sfw-cache/next-check''
     = Some (File ''2026-01-03T00:00:00.000Z'')"
proof -
  let ?v1 = "''/r/.sfw-cache/v1/sfw-free-linux-x86_64''"
  let ?v2 = "''/r/.sfw-cache/v2/sfw-free-linux-x86_64''"
  define w1 where "w1 = snd (setNextCheckTimeSync demoEnv staleWorld)"
  have sn: "setNextCheckTimeSync demoEnv staleWorld = (Inr (), w1)"
    unfolding w1_def by (intro prod_eqI) (simp_all add: demo_setNextCheck(1))
  have fs1: "fs w1 = (fs staleWorld)(''/r/.sfw-cache/next-check'' \<mapsto> File ''2026-01-03T00:00:00.000Z'')"
    and tr1: "trace w1 = [EvWriteFile ''/r/.sfw-cache/next-check'']"
    and lk1: "locks w1 = {}"
    by (simp_all add: w1_def demo_setNextCheck)
  have stale: "shouldCheckForUpdate demoEnv staleWorld"
    by (simp add: shouldCheckForUpdate_def readFileSync_cases(3) [OF staleWorld_fs(5)] staleWorld_fs
        trim_def trimStart_def trimEnd_def strip.simps whiteSpace_def)
  have eq: "ensureLatestBinary demoEnv staleWorld =
      (Inr \<lparr>tag = ''cached'', bin = ?v1\<rparr>, snd (refreshAttempt demoEnv ''sfw-free-linux-x86_64'' w1))"
    by (rule ensureLatestBinary_refresh [OF demo_asset_name staleWorld_latest _ stale sn]) simp
  define w2 where "w2 = emit (EvRequest LATEST_API [(''User-Agent'', ''sfw-free/1.0.0'')]) w1"
  define w3 where "w3 = emit (EvMkdir ''/r/.sfw-cache/v2'') (w2\<lparr>fs := (fs w2)(''/r/.sfw-cache/v2'' \<mapsto> Dir)\<rparr>)"
  have fs2: "fs w2 = fs w1" by (simp add: w2_def emit_def)
  have fs3: "fs w3 = (fs w1)(''/r/.sfw-cache/v2'' \<mapsto> Dir)"
    by (simp add: w3_def w2_def emit_def)
  have tr3: "trace w3 = [EvWriteFile ''/r/.sfw-cache/next-check'',
        EvRequest LATEST_API [(''User-Agent'', ''sfw-free/1.0.0'')], EvMkdir ''/r/.sfw-cache/v2'']"
    by (simp add: w3_def w2_def tr1 emit_def)
  have lk3: "locks w3 = {}"
    by (simp add: w3_def w2_def lk1 emit_def)
  have mk: "mkdirSync ''/r/.sfw-cache/v2'' w2 = (Inr (), w3)"
    by (simp add: mkdirSync_def w3_def fs2 fs1 staleWorld_fs)
  have ex: "\<not> existsSync ?v2 w3"
    by (rule existsSync_missing) (simp add: fs3 fs1 staleWorld_fs)
  define w4 where "w4 = snd (eagerAcquireLockAndDownload demoEnv ''https://a/sfw'' ?v2 ''sha256'' ''85'' w3)"
  have pre: "?v2 @ ''.lock'' \<notin> locks w3" "fs w3 (?v2 @ ''.dl'') = None" "fs w3 ?v2 \<noteq> Some Dir"
    by (simp_all add: lk3 fs3 fs1 staleWorld_fs)
  note dl = demo_download_from [OF pre, folded w4_def]
  have ra: "snd (refreshAttempt demoEnv ''sfw-free-linux-x86_64'' w1) = trySymlinkLatest demoEnv ?v2 w4"
    using dl(1) ex
    by (simp add: refreshAttempt_def demo_fetchLatest w2_def [symmetric] downloadAndVerifyReleaseSync_def
        demo_cache_paths mk findAssetUrl_def demoAsset_def demo_splitDigest w4_def
        tryClearQuarantine_def ensureExecutable_def split_beta)
  have f4: "fs w4 ''/r/.sfw-cache/latest'' = Some (Symlink ?v1)" "fs w4 ?v1 = Some (File ''old'')"
    "fs w4 ?v2 = Some (File ''abcdef'')"
    "fs w4 ''/r/.sfw-cache/next-check'' = Some (File ''2026-01-03T00:00:00.000Z'')"
    by (simp_all add: dl(3) fs3 fs1 staleWorld_fs)
  note pub = demo_publish [OF f4(1)]
  have "trace (snd (ensureLatestBinary demoEnv staleWorld)) = trace staleWorld @
      [EvWriteFile ''/r/.sfw-cache/next-check'',
        EvRequest LATEST_API [(''User-Agent'', ''sfw-free/1.0.0'')],
        EvMkdir ''/r/.sfw-cache/v2'',
        EvLock ''/r/.sfw-cache/v2/sfw-free-linux-x86_64.lock'',
        EvOpen ''/r/.sfw-cache/v2/sfw-free-linux-x86_64.dl'',
        EvRequest ''https://a/sfw'' [(''Range'', ''bytes=0-'')],
        EvRequest ''https://b/sfw'' [(''Range'', ''bytes=0-'')],
        EvWrite ''/r/.sfw-cache/v2/sfw-free-linux-x86_64.dl'' 0 3,
        EvWrite ''/r/.sfw-cache/v2/sfw-free-linux-x86_64.dl'' 3 3,
        EvRelease ''/r/.sfw-cache/v2/sfw-free-linux-x86_64.lock'',
        EvRename ''/r/.sfw-cache/v2/sfw-free-linux-x86_64.dl'' ''/r/.sfw-cache/v2/sfw-free-linux-x86_64'',
        EvUnlink ''/r/.sfw-cache/latest'',
        EvSymlink ''/r/.sfw-cache/v2/sfw-free-linux-x86_64'' ''/r/.sfw-cache/latest'']"
    by (simp add: eq ra pub(1) dl(2) tr3 staleWorld_fs)
  then show ?thesis
    by (simp add: added_append) (simp add: eq ra pub(2) f4)
qed

end
